theory Spec2Isabelle
  imports Main "HOL-Library.Word"
begin

unbundle bit_operations_syntax

section \<open>Values, errors and byte helpers\<close>

text \<open>
  A \<open>Uint8Array\<close> element is an \<open>8 word\<close>. A JavaScript number that the code computes
  from bytes is a natural number or \<open>NaN\<close>: reading \<open>bytes[k]\<close> past the end of a typed
  array gives \<open>undefined\<close>, and arithmetic on \<open>undefined\<close> gives \<open>NaN\<close>. \<open>None\<close> stands for
  \<open>NaN\<close> (and for \<open>undefined\<close> where a variable has not been assigned yet: both behave
  alike in every comparison and conversion the code applies to them).
\<close>

type_synonym byte = "8 word"

datatype error =
    AssertionError string
  | Error string
  | TypeError
  | RangeError

definition byteAt :: "byte list \<Rightarrow> nat \<Rightarrow> nat option" where
  \<comment> \<open>\<open>bytes[k]\<close>: \<open>undefined\<close> out of range, never an exception.\<close>
  "byteAt bytes k = (if k < length bytes then Some (unat (bytes ! k)) else None)"

definition jsAdd :: "'n::plus option \<Rightarrow> 'n option \<Rightarrow> 'n option" where
  "jsAdd a b = (case a of None \<Rightarrow> None | Some x \<Rightarrow> (case b of None \<Rightarrow> None | Some y \<Rightarrow> Some (x + y)))"

definition jsMul :: "nat option \<Rightarrow> nat \<Rightarrow> nat option" where
  "jsMul a k = (case a of None \<Rightarrow> None | Some x \<Rightarrow> Some (x * k))"

text \<open>
  \<open>mp4.js\<close> imports \<open>be2toi\<close>, \<open>be4toi\<close>, \<open>be8toi\<close>, \<open>itobe4\<close>, \<open>strToBytes\<close>,
  \<open>hexToBytes\<close> and \<open>concat\<close> from \<open>utils/bytes\<close> and \<open>assert\<close> from \<open>utils/assert\<close>, which
  are not among the sources. They are modelled from what the spec says of them: big-endian
  readers of 16, 32 and 64 bits, a 4-byte big-endian writer whose 32-bit field wraps
  silently, the ASCII codes of a box name, the raw bytes of a hexadecimal string,
  concatenation into a new buffer, and an assertion that raises (an \<open>AssertionError\<close>
  carrying the message given, the empty string when none is).
\<close>

definition be2toi :: "byte list \<Rightarrow> nat \<Rightarrow> nat option" where
  \<comment> \<open>Modelled from the spec: \<open>be2toi\<close> of \<open>utils/bytes\<close>, the 16-bit big-endian number at
      \<open>off\<close>.\<close>
  "be2toi bytes off =
     jsAdd (jsMul (byteAt bytes off) 0x100) (byteAt bytes (off + 1))"

definition be4toi :: "byte list \<Rightarrow> nat \<Rightarrow> nat option" where
  \<comment> \<open>Modelled from the spec: \<open>be4toi\<close> of \<open>utils/bytes\<close>, the 32-bit big-endian number at
      \<open>off\<close>.\<close>
  "be4toi bytes off =
     jsAdd (jsAdd (jsAdd (jsMul (byteAt bytes off) 0x1000000)
                         (jsMul (byteAt bytes (off + 1)) 0x10000))
                  (jsMul (byteAt bytes (off + 2)) 0x100))
           (byteAt bytes (off + 3))"

definition be8toi :: "byte list \<Rightarrow> nat \<Rightarrow> nat option" where
  \<comment> \<open>Modelled from the spec: \<open>be8toi\<close> of \<open>utils/bytes\<close>, the 64-bit big-endian number at
      \<open>off\<close>. The value is exact here; a double is exact below \<open>2 ^ 53\<close> only.\<close>
  "be8toi bytes off =
     jsAdd (jsMul (be4toi bytes off) 0x100000000) (be4toi bytes (off + 4))"

definition itobe4 :: "nat \<Rightarrow> byte list" where
  \<comment> \<open>Modelled from the spec: \<open>itobe4\<close> of \<open>utils/bytes\<close>, the four bytes of the number
      modulo \<open>2 ^ 32\<close>, big-endian.\<close>
  "itobe4 num =
     [of_nat (num div 0x1000000 mod 0x100), of_nat (num div 0x10000 mod 0x100),
      of_nat (num div 0x100 mod 0x100), of_nat (num mod 0x100)]"

definition strToBytes :: "string \<Rightarrow> byte list" where
  \<comment> \<open>Modelled from the spec: \<open>strToBytes\<close> of \<open>utils/bytes\<close>, the character codes of a box
      name.\<close>
  "strToBytes str = map (\<lambda>c. of_nat (of_char c)) str"

fun hexDigit :: "char \<Rightarrow> nat option" where
  "hexDigit c =
     (let n = (of_char c :: nat) in
      if 48 \<le> n \<and> n \<le> 57 then Some (n - 48)
      else if 97 \<le> n \<and> n \<le> 102 then Some (n - 87)
      else if 65 \<le> n \<and> n \<le> 70 then Some (n - 55)
      else None)"

fun hexPair :: "char \<Rightarrow> char \<Rightarrow> byte" where
  \<comment> \<open>The byte of two hexadecimal digits. The spec gives the decoding no failure of its
      own; here a character that is no hexadecimal digit ends the number, and a pair
      that begins with one decodes to \<open>0\<close>.\<close>
  "hexPair a b =
     (case hexDigit a of
        None \<Rightarrow> 0
      | Some x \<Rightarrow> (case hexDigit b of None \<Rightarrow> of_nat x | Some y \<Rightarrow> of_nat (x * 16 + y)))"

fun hexToBytes :: "string \<Rightarrow> byte list" where
  \<comment> \<open>Modelled from the spec: \<open>hexToBytes\<close> of \<open>utils/bytes\<close>, one byte for every two
      characters of the string.\<close>
  "hexToBytes (a # b # rest) = hexPair a b # hexToBytes rest"
| "hexToBytes _ = []"

section \<open>Box locator\<close>

text \<open>
  The \<open>while\<close> loop of \<open>findAtom\<close>; \<open>getAtomContent\<close> repeats it token for token. The
  loop's state is the offset \<open>i\<close> and the variable \<open>size\<close>, which is \<open>undefined\<close> until
  the first iteration assigns it and keeps the last header's size when the loop leaves
  through its guard. \<open>assert(size > 0)\<close> fails on \<open>0\<close> and on \<open>NaN\<close>.
\<close>

function atomLoop :: "byte list \<Rightarrow> nat \<Rightarrow> nat \<Rightarrow> nat option \<Rightarrow> error + (nat \<times> nat option)" where
  "atomLoop buf atomName i sz =
     (if i + 8 < length buf then
        (case be4toi buf i of
           None \<Rightarrow> Inl (AssertionError ''dash: out of range size'')
         | Some s \<Rightarrow>
             if s = 0 then Inl (AssertionError ''dash: out of range size'')
             else if be4toi buf (i + 4) = Some atomName then Inr (i, Some s)
             else atomLoop buf atomName (i + s) (Some s))
      else Inr (i, sz))"
  by pat_completeness auto
termination
  by (relation "measure (\<lambda>(buf, atomName, i, sz). length buf - i)") auto

definition findAtom :: "byte list \<Rightarrow> nat \<Rightarrow> error + int" where
  "findAtom buf atomName =
     (case atomLoop buf atomName 0 None of
        Inl e \<Rightarrow> Inl e
      | Inr (i, sz) \<Rightarrow>
          if i \<ge> length buf then Inr (- 1)
          else (case sz of
                  None \<Rightarrow> Inl (AssertionError ''dash: atom out of range'')
                | Some s \<Rightarrow>
                    if i + s \<le> length buf then Inr (int i)
                    else Inl (AssertionError ''dash: atom out of range'')))"

definition subarrayBytes :: "byte list \<Rightarrow> nat \<Rightarrow> nat option \<Rightarrow> byte list" where
  \<comment> \<open>The bytes seen through \<open>buf.subarray(begin, end)\<close>: both bounds are clamped to the
      length, an \<open>end\<close> that is \<open>NaN\<close> converts to \<open>0\<close>, and an \<open>end\<close> below \<open>begin\<close> gives
      the empty array.\<close>
  "subarrayBytes buf b e =
     (let l = length buf; b' = min b l; e' = min (case e of None \<Rightarrow> 0 | Some x \<Rightarrow> x) l
      in take (e' - b') (drop b' buf))"

definition getAtomContent :: "byte list \<Rightarrow> nat \<Rightarrow> error + byte list option" where
  "getAtomContent buf atomName =
     (case atomLoop buf atomName 0 None of
        Inl e \<Rightarrow> Inl e
      | Inr (i, sz) \<Rightarrow>
          if i < length buf then Inr (Some (subarrayBytes buf (i + 8) (jsAdd (Some i) sz)))
          else Inr None)"

definition getMdat :: "byte list \<Rightarrow> error + byte list option" where
  "getMdat buf = getAtomContent buf 0x6D646174"

section \<open>Segment index decoder\<close>

record segment =
  seg_ts :: "nat option"
  seg_d :: "nat option"
  seg_r :: nat
  seg_range :: "int option \<times> int option"

record sidx =
  segments :: "segment list"
  timescale :: "nat option"

definition toUint32 :: "nat option \<Rightarrow> 32 word" where
  \<comment> \<open>The operand conversion of \<open>&\<close>: \<open>NaN\<close> becomes \<open>0\<close>.\<close>
  "toUint32 x = (case x of None \<Rightarrow> 0 | Some n \<Rightarrow> of_nat n)"

text \<open>
  The loop \<open>while (--count >= 0)\<close> runs \<open>count\<close> times, and not at all when \<open>count\<close> is
  \<open>NaN\<close>. Each round reads one 12-byte reference record, raises on an index reference,
  pushes a segment and advances \<open>time\<close> and \<open>offset\<close>. The sums \<open>time + d\<close>,
  \<open>offset + refSize\<close> and \<open>offset + refSize - 1\<close>, and those of \<open>parseSidx\<close>, are sums of
  doubles in the code and exact sums here: the two agree as long as every value is below
  \<open>2 ^ 53\<close> in magnitude, as times and byte offsets of a media file are, and not beyond.
\<close>

fun sidxRefs ::
  "byte list \<Rightarrow> nat \<Rightarrow> nat \<Rightarrow> nat option \<Rightarrow> int option \<Rightarrow> segment list \<Rightarrow> error + segment list" where
  "sidxRefs buf 0 pos time offset segs = Inr segs"
| "sidxRefs buf (Suc count) pos time offset segs =
     (let refChunk = be4toi buf pos;
          refType = unat (drop_bit 31 (toUint32 refChunk AND 0x80000000));
          refSize = unat (toUint32 refChunk AND 0x7fffffff)
      in if refType = 1 then Inl (Error ''not implemented'')
         else
           (let d = be4toi buf (pos + 4);
                seg = \<lparr>seg_ts = time, seg_d = d, seg_r = 0,
                       seg_range = (offset, jsAdd (jsAdd offset (Some (int refSize))) (Some (- 1)))\<rparr>
            in sidxRefs buf count (pos + 4 + 4 + 4) (jsAdd time d)
                 (jsAdd offset (Some (int refSize))) (segs @ [seg])))"

definition parseSidx :: "byte list \<Rightarrow> int \<Rightarrow> error + sidx option" where
  "parseSidx buf offset =
     (case findAtom buf 0x73696478 of
        Inl e \<Rightarrow> Inl e
      | Inr index \<Rightarrow>
          if index = - 1 then Inr None
          else
            (let sz = be4toi buf (nat index);
                 pos = nat index + 4 + 4;
                 version = byteAt buf pos;
                 pos1 = pos + 4 + 4;
                 tscale = be4toi buf pos1;
                 pos2 = pos1 + 4;
                 fields =
                   (if version = Some 0 then
                      Some (be4toi buf pos2,
                            jsAdd (Some offset) (map_option int (jsAdd (be4toi buf (pos2 + 4)) sz)),
                            pos2 + 4 + 4)
                    else if version = Some 1 then
                      Some (be8toi buf pos2,
                            jsAdd (Some offset) (map_option int (jsAdd (be8toi buf (pos2 + 8)) sz)),
                            pos2 + 8 + 8)
                    else None)
             in case fields of
                  None \<Rightarrow> Inr None
                | Some (time, offset', pos3) \<Rightarrow>
                    (let pos4 = pos3 + 2;
                         count = (case be2toi buf pos4 of None \<Rightarrow> 0 | Some c \<Rightarrow> c)
                     in case sidxRefs buf count (pos4 + 2) time offset' [] of
                          Inl e \<Rightarrow> Inl e
                        | Inr segs \<Rightarrow> Inr (Some \<lparr>segments = segs, timescale = tscale\<rparr>))))"

section \<open>Protection box patcher\<close>

text \<open>
  \<open>patchPssh\<close> takes views of its input with \<open>subarray\<close>, which share the input's memory,
  and writes into an array with \<open>set\<close>. The store is therefore explicit: a heap is the
  list of the allocated array buffers, a \<open>Uint8Array\<close> is a window into one of them, and
  every function that allocates or writes returns the heap it leaves.
\<close>

type_synonym heap = "byte list list"

record u8array =
  store :: nat
  byteOffset :: nat
  byteLength :: nat

definition bytesOf :: "heap \<Rightarrow> u8array \<Rightarrow> byte list" where
  "bytesOf h a = take (byteLength a) (drop (byteOffset a) (h ! store a))"

definition wellFormed :: "heap \<Rightarrow> u8array \<Rightarrow> bool" where
  "wellFormed h a = (store a < length h \<and> byteOffset a + byteLength a \<le> length (h ! store a))"

definition newArray :: "heap \<Rightarrow> byte list \<Rightarrow> u8array \<times> heap" where
  \<comment> \<open>\<open>new Uint8Array(...)\<close>: a fresh buffer at the next free address.\<close>
  "newArray h bs = (\<lparr>store = length h, byteOffset = 0, byteLength = length bs\<rparr>, h @ [bs])"

definition toInteger :: "nat option \<Rightarrow> nat" where
  "toInteger x = (case x of None \<Rightarrow> 0 | Some n \<Rightarrow> n)"

definition subarray :: "u8array \<Rightarrow> nat option \<Rightarrow> nat option \<Rightarrow> u8array" where
  \<comment> \<open>\<open>a.subarray(begin, end)\<close>: a window into the same buffer, nothing is copied.\<close>
  "subarray a b e =
     (let l = byteLength a; b' = min (toInteger b) l; e' = min (toInteger e) l
      in a\<lparr>byteOffset := byteOffset a + b', byteLength := e' - b'\<rparr>)"

definition subarrayFrom :: "u8array \<Rightarrow> nat option \<Rightarrow> u8array" where
  \<comment> \<open>\<open>a.subarray(begin)\<close>: the end defaults to the length.\<close>
  "subarrayFrom a b =
     (let l = byteLength a; b' = min (toInteger b) l
      in a\<lparr>byteOffset := byteOffset a + b', byteLength := l - b'\<rparr>)"

definition setBytes :: "heap \<Rightarrow> u8array \<Rightarrow> byte list \<Rightarrow> nat \<Rightarrow> (error + unit) \<times> heap" where
  \<comment> \<open>\<open>a.set(source, offset)\<close>: writes through the window into its buffer; a source
      that does not fit raises \<open>RangeError\<close> and writes nothing.\<close>
  "setBytes h a src off =
     (if off + length src > byteLength a then (Inl RangeError, h)
      else
        (let old = h ! store a; at = byteOffset a + off
         in (Inr (), h[store a := take at old @ src @ drop (at + length src) old])))"

datatype concat_arg = Zeros nat | Arr u8array

fun argBytes :: "heap \<Rightarrow> concat_arg \<Rightarrow> byte list" where
  "argBytes h (Zeros n) = replicate n 0"
| "argBytes h (Arr a) = bytesOf h a"

definition concat_u8 :: "heap \<Rightarrow> concat_arg list \<Rightarrow> u8array \<times> heap" where
  \<comment> \<open>Modelled from the spec: \<open>concat\<close> of \<open>utils/bytes\<close>. A number stands for that many
      zeroed bytes; the result is a new array holding a copy.\<close>
  "concat_u8 h as = newArray h (concat (map (argBytes h) as))"

definition Atom :: "heap \<Rightarrow> string \<Rightarrow> u8array \<Rightarrow> u8array \<times> heap" where
  "Atom h name buff =
     (let len = byteLength buff + 8;
          (a1, h1) = newArray h (itobe4 len);
          (a2, h2) = newArray h1 (strToBytes name)
      in concat_u8 h2 [Arr a1, Arr a2, Arr buff])"

record pss =
  systemId :: string
  privateData :: u8array

definition createPssh :: "heap \<Rightarrow> pss \<Rightarrow> (error + u8array) \<times> heap" where
  "createPssh h p =
     (let sysId = filter (\<lambda>c. c \<noteq> CHR ''-'') (systemId p)
      in if length sysId = 32 then
           (let (a1, h1) = newArray h (hexToBytes sysId);
                (a2, h2) = newArray h1 (itobe4 (byteLength (privateData p)));
                (content, h3) = concat_u8 h2 [Zeros 4, Arr a1, Arr a2, Arr (privateData p)];
                (box, h4) = Atom h3 ''pssh'' content
            in (Inr box, h4))
         else (Inl (AssertionError []), h))"

text \<open>The \<open>for\<close> loop of \<open>patchPssh\<close>: one \<open>createPssh\<close> per descriptor, pushed in order.\<close>

fun createAll :: "heap \<Rightarrow> pss list \<Rightarrow> u8array list \<Rightarrow> (error + u8array list) \<times> heap" where
  "createAll h [] newmoov = (Inr newmoov, h)"
| "createAll h (p # ps) newmoov =
     (case createPssh h p of
        (Inl e, h') \<Rightarrow> (Inl e, h')
      | (Inr box, h') \<Rightarrow> createAll h' ps (newmoov @ [box]))"

definition patchPssh :: "heap \<Rightarrow> u8array \<Rightarrow> pss list option \<Rightarrow> (error + u8array) \<times> heap" where
  "patchPssh h buf pssList =
     (case pssList of
        None \<Rightarrow> (Inr buf, h)
      | Some [] \<Rightarrow> (Inr buf, h)
      | Some (p # ps) \<Rightarrow>
          (case findAtom (bytesOf h buf) 0x6d6f6f76 of
             Inl e \<Rightarrow> (Inl e, h)
           | Inr pos \<Rightarrow>
               if pos = - 1 then (Inr buf, h)
               else
                 (let sz = be4toi (bytesOf h buf) (nat pos);
                      moov = subarray buf (Some (nat pos)) (jsAdd (Some (nat pos)) sz)
                  in case createAll h (p # ps) [moov] of
                       (Inl e, h1) \<Rightarrow> (Inl e, h1)
                     | (Inr parts, h1) \<Rightarrow>
                         (let (newmoov, h2) = concat_u8 h1 (map Arr parts);
                              (len4, h3) = newArray h2 (itobe4 (byteLength newmoov))
                          in case setBytes h3 newmoov (bytesOf h3 len4) 0 of
                               (Inl e, h4) \<Rightarrow> (Inl e, h4)
                             | (Inr u, h4) \<Rightarrow>
                                 (let (out, h5) =
                                        concat_u8 h4
                                          [Arr (subarray buf (Some 0) (Some (nat pos))),
                                           Arr newmoov,
                                           Arr (subarrayFrom buf (jsAdd (Some (nat pos)) sz))]
                                  in (Inr out, h5))))))"

section \<open>Serialized buffer queue\<close>

text \<open>
  \<open>BufferingQueue\<close> is a state machine driven by its callers (\<open>queueAction\<close>, \<open>dispose\<close>)
  and by the events of the source buffer it listens to (\<open>update\<close>, \<open>error\<close>,
  \<open>updateend\<close>). The source buffer is outside the program: what it answers when \<open>flush\<close>
  reads \<open>this.buffer.updating\<close> and whether the primitive that \<open>flush\<close> calls raises are
  given with each step as a \<open>response\<close>, so that a statement about every sequence of steps
  covers every behaviour of the resource. A \<open>Subject\<close> is the number of its creation; what
  the queue does to the outside (a primitive called, \<open>next\<close>, \<open>complete\<close> or \<open>error\<close> on
  a subject, an exception leaving a method) is appended to \<open>effects\<close>. Subscribers of a
  subject are outside the program and are taken not to call back into the queue.
\<close>

datatype kind = BUFFER_APPEND | BUFFER_REMOVE | BUFFER_STREAM

datatype 'a primitive = AppendBuffer 'a | AppendStream 'a | Remove 'a

datatype ('a, 'v) effect =
    Call "'a primitive"
  | SubjNext nat 'v
  | SubjComplete nat
  | SubjError nat 'v
  | Thrown error

record 'v response =
  updating :: bool
  raises :: "'v option"

record 'a action =
  type :: kind
  args :: 'a
  subj :: nat

record ('a, 'v) BufferingQueue =
  buffer :: bool \<comment> \<open>\<open>False\<close> once \<open>dispose\<close> has set \<open>this.buffer\<close> to \<open>null\<close>\<close>
  queue :: "'a action list"
  flushing :: "nat option"
  subjects :: nat \<comment> \<open>the number of subjects created so far\<close>
  effects :: "('a, 'v) effect list"

definition constructor :: "('a, 'v) BufferingQueue" where
  "constructor = \<lparr>buffer = True, queue = [], flushing = None, subjects = 0, effects = []\<rparr>"

definition dispose :: "('a, 'v) BufferingQueue \<Rightarrow> ('a, 'v) BufferingQueue" where
  \<comment> \<open>On a queue that is disposed already the first statement,
      \<open>this.buffer.removeEventListener\<close>, raises \<open>TypeError\<close> and nothing is changed.\<close>
  "dispose q =
     (if buffer q then q\<lparr>buffer := False, queue := [], flushing := None\<rparr>
      else q\<lparr>effects := effects q @ [Thrown TypeError]\<rparr>)"

definition onUpdate :: "'v \<Rightarrow> ('a, 'v) BufferingQueue \<Rightarrow> ('a, 'v) BufferingQueue" where
  "onUpdate evt q =
     (case flushing q of
        Some s \<Rightarrow> q\<lparr>flushing := None, effects := effects q @ [SubjNext s evt, SubjComplete s]\<rparr>
      | None \<Rightarrow> q)"

definition onError :: "'v \<Rightarrow> ('a, 'v) BufferingQueue \<Rightarrow> ('a, 'v) BufferingQueue" where
  "onError err q =
     (case flushing q of
        Some s \<Rightarrow> q\<lparr>flushing := None, effects := effects q @ [SubjError s err]\<rparr>
      | None \<Rightarrow> q)"

fun primitiveOf :: "kind \<Rightarrow> 'a \<Rightarrow> 'a primitive" where
  "primitiveOf BUFFER_APPEND a = AppendBuffer a"
| "primitiveOf BUFFER_STREAM a = AppendStream a"
| "primitiveOf BUFFER_REMOVE a = Remove a"

definition flush :: "'v response \<Rightarrow> ('a, 'v) BufferingQueue \<Rightarrow> ('a, 'v) BufferingQueue" where
  \<comment> \<open>The guard is evaluated left to right: \<open>this.buffer.updating\<close> is reached only with
      nothing in flight and a non-empty queue, and raises \<open>TypeError\<close> on a disposed queue.
      \<open>pop\<close> takes the last element, \<open>unshift\<close> in \<open>queueAction\<close> adds at the front.\<close>
  "flush env q =
     (case flushing q of
        Some s \<Rightarrow> q
      | None \<Rightarrow>
          if queue q = [] then q
          else if buffer q then
            (if updating env then q
             else
               (let a = last (queue q);
                    q1 = q\<lparr>queue := butlast (queue q), flushing := Some (subj a)\<rparr>;
                    q2 = q1\<lparr>effects := effects q1 @ [Call (primitiveOf (type a) (args a))]\<rparr>
                in case raises env of
                     None \<Rightarrow> q2
                   | Some e \<Rightarrow> onError e q2))
          else q\<lparr>effects := effects q @ [Thrown TypeError]\<rparr>)"

definition queueAction ::
  "kind \<Rightarrow> 'a \<Rightarrow> 'v response \<Rightarrow> ('a, 'v) BufferingQueue \<Rightarrow> nat \<times> ('a, 'v) BufferingQueue" where
  "queueAction t a env q =
     (let s = subjects q;
          q1 = q\<lparr>subjects := Suc s, queue := \<lparr>type = t, args = a, subj = s\<rparr> # queue q\<rparr>
      in (s, if length (queue q1) = 1 then flush env q1 else q1))"

definition appendBuffer :: "'a \<Rightarrow> 'v response \<Rightarrow> ('a, 'v) BufferingQueue \<Rightarrow> nat \<times> ('a, 'v) BufferingQueue" where
  "appendBuffer a env q = queueAction BUFFER_APPEND a env q"

definition removeBuffer :: "'a \<Rightarrow> 'v response \<Rightarrow> ('a, 'v) BufferingQueue \<Rightarrow> nat \<times> ('a, 'v) BufferingQueue" where
  "removeBuffer a env q = queueAction BUFFER_REMOVE a env q"

definition appendStream :: "'a \<Rightarrow> 'v response \<Rightarrow> ('a, 'v) BufferingQueue \<Rightarrow> nat \<times> ('a, 'v) BufferingQueue" where
  "appendStream a env q = queueAction BUFFER_STREAM a env q"

text \<open>
  What can happen to a queue: a caller enqueues or disposes, or the source buffer fires an
  event. The three listeners are attached by the constructor and removed by \<open>dispose\<close>, so
  an event reaches its handler only while \<open>this.buffer\<close> is set.
\<close>

datatype ('a, 'v) event =
    Enqueue kind 'a "'v response"
  | Dispose
  | UpdateEvent 'v
  | ErrorEvent 'v
  | UpdateEnd "'v response"

fun step :: "('a, 'v) BufferingQueue \<Rightarrow> ('a, 'v) event \<Rightarrow> ('a, 'v) BufferingQueue" where
  "step q (Enqueue t a env) = snd (queueAction t a env q)"
| "step q Dispose = dispose q"
| "step q (UpdateEvent evt) = (if buffer q then onUpdate evt q else q)"
| "step q (ErrorEvent err) = (if buffer q then onError err q else q)"
| "step q (UpdateEnd env) = (if buffer q then flush env q else q)"

definition run :: "('a, 'v) event list \<Rightarrow> ('a, 'v) BufferingQueue" where
  "run evs = foldl step constructor evs"



fun calls :: "('a, 'v) effect list \<Rightarrow> 'a primitive list" where
  "calls [] = []"
| "calls (Call c # es) = c # calls es"
| "calls (SubjComplete s # es) = calls es"
| "calls (SubjError s err # es) = calls es"
| "calls (SubjNext s evt # es) = calls es"
| "calls (Thrown e # es) = calls es"

section \<open>Auxiliary notions for the statements\<close>

text \<open>
  The offsets of the top-level boxes that the locator's loop visits: it starts at \<open>0\<close>
  and, from a header that lies before the last 8 bytes, has a positive size and another
  name than the one looked for, goes on to the offset after that box.
\<close>

inductive scanReaches :: "byte list \<Rightarrow> nat \<Rightarrow> nat \<Rightarrow> bool" for buf atomName where
  start: "scanReaches buf atomName 0"
| skip: "scanReaches buf atomName i \<Longrightarrow> i + 8 < length buf \<Longrightarrow> be4toi buf i = Some s \<Longrightarrow> 0 < s
           \<Longrightarrow> be4toi buf (i + 4) \<noteq> Some atomName \<Longrightarrow> scanReaches buf atomName (i + s)"

code_pred scanReaches .

text \<open>
  The test box of the segment-index example: a \<open>sidx\<close> box of 56 bytes, version 0,
  reference id 1, timescale 1000, earliest presentation time 0, first offset 0, and two
  media references of sizes 100 and 150 and duration 500 each.
\<close>

definition syntheticSidx :: "byte list" where
  "syntheticSidx =
     [0, 0, 0, 56, 0x73, 0x69, 0x64, 0x78,
      0, 0, 0, 0,
      0, 0, 0, 1,
      0, 0, 0x03, 0xE8,
      0, 0, 0, 0,
      0, 0, 0, 0,
      0, 0, 0, 2,
      0, 0, 0, 100, 0, 0, 0x01, 0xF4, 0, 0, 0, 0,
      0, 0, 0, 150, 0, 0, 0x01, 0xF4, 0, 0, 0, 0]"






text \<open>
  For the patcher: the bytes of the \<open>pssh\<close> box that \<open>createPssh\<close> builds for a
  descriptor, and the six buffers it allocates on the way (the decoded system id, the
  length of the private data, the content, and in \<open>Atom\<close> the box length, the box name and
  the box).
\<close>

definition psshContent :: "heap \<Rightarrow> pss \<Rightarrow> byte list" where
  "psshContent h p =
     replicate 4 0 @ hexToBytes (filter (\<lambda>c. c \<noteq> CHR ''-'') (systemId p)) @
     itobe4 (byteLength (privateData p)) @ bytesOf h (privateData p)"

definition psshBytes :: "heap \<Rightarrow> pss \<Rightarrow> byte list" where
  "psshBytes h p =
     itobe4 (length (psshContent h p) + 8) @ strToBytes ''pssh'' @ psshContent h p"

definition psshAllocs :: "heap \<Rightarrow> pss \<Rightarrow> heap" where
  "psshAllocs h p =
     [hexToBytes (filter (\<lambda>c. c \<noteq> CHR ''-'') (systemId p)),
      itobe4 (byteLength (privateData p)),
      psshContent h p,
      itobe4 (length (psshContent h p) + 8),
      strToBytes ''pssh'',
      psshBytes h p]"

definition validPss :: "heap \<Rightarrow> pss \<Rightarrow> bool" where
  "validPss h p =
     (length (filter (\<lambda>c. c \<noteq> CHR ''-'') (systemId p)) = 32 \<and> wellFormed h (privateData p))"

text \<open>
  A test container for the patcher: a heap holding a file of 36 bytes (an \<open>ftyp\<close> box of
  8 bytes, a \<open>moov\<close> box of 16, an \<open>mdat\<close> box of 12) and three bytes of private data,
  and one descriptor with a hyphenated system id.
\<close>

definition exampleHeap :: heap where
  "exampleHeap =
     [[0, 0, 0, 8, 0x66, 0x74, 0x79, 0x70,
       0, 0, 0, 16, 0x6d, 0x6f, 0x6f, 0x76, 1, 2, 3, 4, 5, 6, 7, 8,
       0, 0, 0, 12, 0x6d, 0x64, 0x61, 0x74, 9, 9, 9, 9],
      [0xAA, 0xBB, 0xCC]]"

definition exampleBuf :: u8array where
  "exampleBuf = \<lparr>store = 0, byteOffset = 0, byteLength = 36\<rparr>"

definition freeBoxesHeap :: heap where
  \<comment> \<open>A file of two \<open>free\<close> boxes of 8 bytes each, and the private data.\<close>
  "freeBoxesHeap =
     [[0, 0, 0, 8, 0x66, 0x72, 0x65, 0x65, 0, 0, 0, 8, 0x66, 0x72, 0x65, 0x65],
      [0xAA, 0xBB, 0xCC]]"

definition freeBoxesBuf :: u8array where
  "freeBoxesBuf = \<lparr>store = 0, byteOffset = 0, byteLength = 16\<rparr>"

definition examplePss :: pss where
  "examplePss =
     \<lparr>systemId = ''edef8ba9-79d6-4ace-a3c8-27dcd51d21ed'',
      privateData = \<lparr>store = 1, byteOffset = 0, byteLength = 3\<rparr>\<rparr>"

section \<open>The box locator\<close>

lemma be4toi_in_range:
  "off + 4 \<le> length bytes \<Longrightarrow>
     be4toi bytes off =
       Some (unat (bytes ! off) * 0x1000000 + unat (bytes ! (off + 1)) * 0x10000
             + unat (bytes ! (off + 2)) * 0x100 + unat (bytes ! (off + 3)))"
  by (simp add: be4toi_def byteAt_def jsAdd_def jsMul_def)

lemma atomLoop_sz:
  "i + 8 < length buf \<Longrightarrow> atomLoop buf atomName i sz = atomLoop buf atomName i sz'"
  by (subst atomLoop.simps, subst (2) atomLoop.simps) simp

lemma atomLoop_reached:
  "scanReaches buf atomName i \<Longrightarrow> i + 8 < length buf \<Longrightarrow>
     atomLoop buf atomName 0 None = atomLoop buf atomName i sz"
proof (induction arbitrary: sz rule: scanReaches.induct)
  case start
  then show ?case by (rule atomLoop_sz)
next
  case (skip i s)
  have "atomLoop buf atomName 0 None = atomLoop buf atomName i None"
    using skip.IH skip.hyps by blast
  also have "\<dots> = atomLoop buf atomName (i + s) (Some s)"
    using skip.hyps by (subst atomLoop.simps) simp
  also have "\<dots> = atomLoop buf atomName (i + s) sz"
    using skip.prems by (rule atomLoop_sz)
  finally show ?case .
qed

text \<open>
  C2 (as amended). At every header the scan visits, both 32-bit reads lie inside the
  buffer. A declared size of 0 there makes \<open>findAtom\<close> and \<open>getAtomContent\<close> raise. A box
  of the requested name that extends past the end of the buffer makes \<open>findAtom\<close> raise;
  one that lies inside the buffer is what both functions return. A box of another name
  that extends to or past the end of the buffer ends the scan, and both functions give
  their normal "not found" result.
\<close>

theorem C2_locator_errors:
  assumes "scanReaches buf atomName i" and "i + 8 < length buf"
  shows "\<exists>s n. be4toi buf i = Some s \<and> be4toi buf (i + 4) = Some n \<and>
           (s = 0 \<longrightarrow>
              findAtom buf atomName = Inl (AssertionError ''dash: out of range size'') \<and>
              getAtomContent buf atomName = Inl (AssertionError ''dash: out of range size'')) \<and>
           (0 < s \<and> n = atomName \<and> length buf < i + s \<longrightarrow>
              findAtom buf atomName = Inl (AssertionError ''dash: atom out of range'')) \<and>
           (0 < s \<and> n = atomName \<and> i + s \<le> length buf \<longrightarrow>
              findAtom buf atomName = Inr (int i) \<and>
              getAtomContent buf atomName = Inr (Some (subarrayBytes buf (i + 8) (Some (i + s))))) \<and>
           (0 < s \<and> n \<noteq> atomName \<and> length buf \<le> i + s \<longrightarrow>
              findAtom buf atomName = Inr (- 1) \<and> getAtomContent buf atomName = Inr None)"
proof -
  from assms(2) obtain s where s: "be4toi buf i = Some s"
    by (simp add: be4toi_in_range)
  from assms(2) obtain n where n: "be4toi buf (i + 4) = Some n"
    by (simp add: be4toi_in_range)
  have loop: "atomLoop buf atomName 0 None = atomLoop buf atomName i None"
    using assms by (rule atomLoop_reached)
  have zero: "atomLoop buf atomName i None = Inl (AssertionError ''dash: out of range size'')"
    if "s = 0"
    using that assms(2) s by (subst atomLoop.simps) simp
  have found: "atomLoop buf atomName i None = Inr (i, Some s)"
    if "0 < s" "n = atomName"
    using that assms(2) s n by (subst atomLoop.simps) simp
  have past: "atomLoop buf atomName i None = Inr (i + s, Some s)"
    if "0 < s" "n \<noteq> atomName" "length buf \<le> i + s"
  proof -
    have "atomLoop buf atomName i None = atomLoop buf atomName (i + s) (Some s)"
      using that assms(2) s n by (subst atomLoop.simps) simp
    also have "\<dots> = Inr (i + s, Some s)"
      using that by (subst atomLoop.simps) simp
    finally show ?thesis .
  qed
  have "s = 0 \<longrightarrow>
          findAtom buf atomName = Inl (AssertionError ''dash: out of range size'') \<and>
          getAtomContent buf atomName = Inl (AssertionError ''dash: out of range size'')"
    using loop zero by (simp add: findAtom_def getAtomContent_def)
  moreover have "0 < s \<and> n = atomName \<and> length buf < i + s \<longrightarrow>
          findAtom buf atomName = Inl (AssertionError ''dash: atom out of range'')"
    using loop found assms(2) by (simp add: findAtom_def)
  moreover have "0 < s \<and> n = atomName \<and> i + s \<le> length buf \<longrightarrow>
          findAtom buf atomName = Inr (int i) \<and>
          getAtomContent buf atomName = Inr (Some (subarrayBytes buf (i + 8) (Some (i + s))))"
    using loop found assms(2) by (simp add: findAtom_def getAtomContent_def jsAdd_def)
  moreover have "0 < s \<and> n \<noteq> atomName \<and> length buf \<le> i + s \<longrightarrow>
          findAtom buf atomName = Inr (- 1) \<and> getAtomContent buf atomName = Inr None"
    using loop past by (simp add: findAtom_def getAtomContent_def)
  ultimately show ?thesis using s n by blast
qed

text \<open>
  The theorem at a buffer of 20 bytes: a \<open>free\<close> box of 8 bytes, then a header of
  declared size 0, looked through for \<open>moov\<close>.
\<close>

theorem C2_locator_errors_witness:
  "scanReaches [0, 0, 0, 8, 0x66, 0x72, 0x65, 0x65, 0, 0, 0, 0, 0x66, 0x72, 0x65, 0x65, 0, 0, 0, 0]
     0x6d6f6f76 8 \<and>
   8 + 8 < length [0, 0, 0, 8, 0x66, 0x72, 0x65, 0x65, 0, 0, 0, 0, 0x66, 0x72, 0x65, 0x65, 0, 0, 0, 0 :: byte] \<and>
   findAtom [0, 0, 0, 8, 0x66, 0x72, 0x65, 0x65, 0, 0, 0, 0, 0x66, 0x72, 0x65, 0x65, 0, 0, 0, 0]
     0x6d6f6f76 = Inl (AssertionError ''dash: out of range size'') \<and>
   getAtomContent [0, 0, 0, 8, 0x66, 0x72, 0x65, 0x65, 0, 0, 0, 0, 0x66, 0x72, 0x65, 0x65, 0, 0, 0, 0]
     0x6d6f6f76 = Inl (AssertionError ''dash: out of range size'')"
proof -
  let ?B = "[0, 0, 0, 8, 0x66, 0x72, 0x65, 0x65, 0, 0, 0, 0, 0x66, 0x72, 0x65, 0x65, 0, 0, 0, 0] :: byte list"
  have first: "be4toi ?B 0 = Some 8" "be4toi ?B (0 + 4) \<noteq> Some 0x6d6f6f76"
    by (simp_all add: be4toi_in_range)
  have "scanReaches ?B 0x6d6f6f76 (0 + 8)"
    by (rule scanReaches.skip [OF scanReaches.start _ first(1) _ first(2)]) simp_all
  then have reach: "scanReaches ?B 0x6d6f6f76 8" by simp
  have len: "8 + 8 < length ?B" by simp
  have second: "be4toi ?B 8 = Some 0"
    by (simp add: be4toi_in_range)
  from C2_locator_errors [OF reach len] second reach len show ?thesis
    by auto
qed

text \<open>
  The claim as stated fails on a buffer of 12 bytes that holds a \<open>free\<close> box of declared
  size 16: both functions report "not found", neither raises.
\<close>

theorem C2_counterexample:
  "findAtom [0, 0, 0, 16, 0x66, 0x72, 0x65, 0x65, 0, 0, 0, 0] 0x6d6f6f76 = Inr (- 1) \<and>
   getAtomContent [0, 0, 0, 16, 0x66, 0x72, 0x65, 0x65, 0, 0, 0, 0] 0x6d6f6f76 = Inr None"
  by (simp add: findAtom_def getAtomContent_def be4toi_in_range)

text \<open>
  Three behaviours that the statement above does not cover. The loop runs while
  \<open>i + 8 < l\<close>, so a last box of exactly 8 bytes is never looked at: \<open>findAtom\<close> returns
  its offset without having compared the name, and on a buffer of 8 bytes \<open>getAtomContent\<close>
  returns an empty array. And \<open>getAtomContent\<close> has no range assertion: for a box of the
  requested name that extends past the end it returns the bytes there are.
\<close>

lemma findAtom_last_box_unchecked:
  "findAtom [0, 0, 0, 8, 0x66, 0x72, 0x65, 0x65, 0, 0, 0, 8, 0x66, 0x72, 0x65, 0x65] 0x6d6f6f76 =
     Inr 8"
  by (simp add: findAtom_def be4toi_in_range)

lemma getAtomContent_header_only:
  "getAtomContent [0, 0, 0, 0, 0x66, 0x72, 0x65, 0x65] 0x6d6f6f76 = Inr (Some [])"
  by (simp add: getAtomContent_def subarrayBytes_def jsAdd_def)

lemma getAtomContent_clamped:
  "getAtomContent [0, 0, 0, 16, 0x6d, 0x6f, 0x6f, 0x76, 1, 2, 3, 4] 0x6d6f6f76 =
     Inr (Some [1, 2, 3, 4])"
  by (simp add: getAtomContent_def subarrayBytes_def jsAdd_def be4toi_in_range)

section \<open>The segment index decoder\<close>

lemma parseSidx_synthetic:
  "parseSidx syntheticSidx A =
     Inr (Some \<lparr>segments =
                  [\<lparr>seg_ts = Some 0, seg_d = Some 500, seg_r = 0,
                    seg_range = (Some (A + 56), Some (A + 155))\<rparr>,
                   \<lparr>seg_ts = Some 500, seg_d = Some 500, seg_r = 0,
                    seg_range = (Some (A + 156), Some (A + 305))\<rparr>],
                timescale = Some 1000\<rparr>)"
  by (simp add: parseSidx_def findAtom_def syntheticSidx_def be4toi_def be2toi_def byteAt_def
      jsAdd_def jsMul_def toUint32_def Let_def)

text \<open>
  C3 (as amended). Decoding the synthetic \<open>sidx\<close> box with anchor offset \<open>A\<close> yields
  timescale 1000 and exactly two segments, of presentation times 0 and 500 and duration
  500 each; their byte ranges start at \<open>A\<close> plus the first offset plus the size of the
  \<open>sidx\<close> box itself (56 bytes): \<open>[A + 56, A + 155]\<close> and \<open>[A + 156, A + 305]\<close>.
\<close>

theorem C3_sidx_example:
  "parseSidx syntheticSidx A =
     Inr (Some \<lparr>segments =
                  [\<lparr>seg_ts = Some 0, seg_d = Some 500, seg_r = 0,
                    seg_range = (Some (A + 56), Some (A + 56 + 99))\<rparr>,
                   \<lparr>seg_ts = Some 500, seg_d = Some 500, seg_r = 0,
                    seg_range = (Some (A + 56 + 100), Some (A + 56 + 249))\<rparr>],
                timescale = Some 1000\<rparr>)"
  by (simp add: parseSidx_synthetic)

theorem C3_sidx_example_witness:
  "parseSidx syntheticSidx 1000 =
     Inr (Some \<lparr>segments =
                  [\<lparr>seg_ts = Some 0, seg_d = Some 500, seg_r = 0,
                    seg_range = (Some 1056, Some 1155)\<rparr>,
                   \<lparr>seg_ts = Some 500, seg_d = Some 500, seg_r = 0,
                    seg_range = (Some 1156, Some 1305)\<rparr>],
                timescale = Some 1000\<rparr>)"
  using C3_sidx_example [of 1000] by simp

text \<open>
  The claim as stated fails already at \<open>A = 0\<close>: the ranges are not \<open>[0, 99]\<close> and
  \<open>[100, 249]\<close>.
\<close>

theorem C3_counterexample:
  "parseSidx syntheticSidx 0 \<noteq>
     Inr (Some \<lparr>segments =
                  [\<lparr>seg_ts = Some 0, seg_d = Some 500, seg_r = 0,
                    seg_range = (Some 0, Some 99)\<rparr>,
                   \<lparr>seg_ts = Some 500, seg_d = Some 500, seg_r = 0,
                    seg_range = (Some 100, Some 249)\<rparr>],
                timescale = Some 1000\<rparr>)"
  by (simp add: parseSidx_synthetic)

text \<open>
  C5 (as amended). When the \<open>sidx\<close> box found carries a version other than 0 and 1, the
  decoder returns \<open>null\<close>, and that is the very result it returns when the locator finds
  no \<open>sidx\<close> box: the two outcomes are one value, and no error is raised for the version.
\<close>

theorem C5_unknown_version_is_null:
  assumes "findAtom b1 0x73696478 = Inr (int index)"
    and "byteAt b1 (index + 8) \<noteq> Some 0" and "byteAt b1 (index + 8) \<noteq> Some 1"
    and "findAtom b2 0x73696478 = Inr (- 1)"
  shows "parseSidx b1 off1 = Inr None \<and> parseSidx b2 off2 = Inr None"
proof -
  have pos: "nat (int index) + 4 + 4 = index + 8"
    by simp
  have "parseSidx b1 off1 = Inr None"
    unfolding parseSidx_def Let_def assms(1) pos using assms(2,3) by (simp add: add.commute)
  moreover have "parseSidx b2 off2 = Inr None"
    unfolding parseSidx_def assms(4) by simp
  ultimately show ?thesis by simp
qed

theorem C5_unknown_version_is_null_witness:
  "findAtom [0, 0, 0, 12, 0x73, 0x69, 0x64, 0x78, 2, 0, 0, 0] 0x73696478 = Inr (int 0) \<and>
   byteAt [0, 0, 0, 12, 0x73, 0x69, 0x64, 0x78, 2, 0, 0, 0] (0 + 8) = Some 2 \<and>
   findAtom [] 0x73696478 = Inr (- 1) \<and>
   parseSidx [0, 0, 0, 12, 0x73, 0x69, 0x64, 0x78, 2, 0, 0, 0] 0 = Inr None \<and>
   parseSidx [] 0 = Inr None"
proof -
  let ?B = "[0, 0, 0, 12, 0x73, 0x69, 0x64, 0x78, 2, 0, 0, 0] :: byte list"
  have f1: "findAtom ?B 0x73696478 = Inr (int 0)"
    by (simp add: findAtom_def be4toi_in_range)
  have v: "byteAt ?B (0 + 8) = Some 2"
    by (simp add: byteAt_def)
  have f2: "findAtom [] 0x73696478 = Inr (- 1)"
    by (simp add: findAtom_def)
  from v have v0: "byteAt ?B (0 + 8) \<noteq> Some 0" and v1: "byteAt ?B (0 + 8) \<noteq> Some 1"
    by simp_all
  from C5_unknown_version_is_null [OF f1 v0 v1 f2, of 0 0] f1 v f2 show ?thesis
    by simp
qed

text \<open>
  The claim as stated fails on a \<open>sidx\<close> box of version 2: the decoder's result is the
  one it gives for the empty buffer, which holds no \<open>sidx\<close> box.
\<close>

theorem C5_counterexample:
  "parseSidx [0, 0, 0, 12, 0x73, 0x69, 0x64, 0x78, 2, 0, 0, 0] 0 = parseSidx [] 0"
  by (simp add: parseSidx_def findAtom_def be4toi_in_range byteAt_def Let_def)

section \<open>The protection box patcher\<close>

lemma bytesOf_append: "store a < length h \<Longrightarrow> bytesOf (h @ ext) a = bytesOf h a"
  by (simp add: bytesOf_def nth_append)

lemma wellFormed_append: "wellFormed h a \<Longrightarrow> wellFormed (h @ ext) a"
  by (simp add: wellFormed_def nth_append)

lemma length_bytesOf: "wellFormed h a \<Longrightarrow> length (bytesOf h a) = byteLength a"
  by (auto simp: bytesOf_def wellFormed_def min_def)

lemma bytesOf_whole:
  "H ! k = bs \<Longrightarrow> bytesOf H \<lparr>store = k, byteOffset = 0, byteLength = length bs\<rparr> = bs"
  by (simp add: bytesOf_def)

lemma length_hexToBytes: "length (hexToBytes s) = length s div 2"
  by (induction s rule: hexToBytes.induct) simp_all

lemma length_itobe4: "length (itobe4 n) = 4"
  by (simp add: itobe4_def)

lemma psshContent_append:
  "store (privateData p) < length h \<Longrightarrow> psshContent (h @ ext) p = psshContent h p"
  by (simp add: psshContent_def bytesOf_append)

lemma psshBytes_append:
  "store (privateData p) < length h \<Longrightarrow> psshBytes (h @ ext) p = psshBytes h p"
  by (simp add: psshBytes_def psshContent_append)

lemma length_psshBytes:
  "validPss h p \<Longrightarrow> length (psshBytes h p) = 8 + 24 + byteLength (privateData p)"
  by (simp add: validPss_def psshBytes_def psshContent_def length_hexToBytes length_itobe4
      length_bytesOf strToBytes_def)

lemma createPssh_valid:
  assumes "length (filter (\<lambda>c. c \<noteq> CHR ''-'') (systemId p)) = 32"
    and "store (privateData p) < length h"
  shows "createPssh h p =
           (Inr \<lparr>store = length h + 5, byteOffset = 0, byteLength = length (psshBytes h p)\<rparr>,
            h @ psshAllocs h p)"
proof -
  let ?a = "hexToBytes (filter (\<lambda>c. c \<noteq> CHR ''-'') (systemId p))"
  let ?b = "itobe4 (byteLength (privateData p))"
  let ?c = "psshContent h p"
  have pd: "bytesOf (h @ [?a, ?b]) (privateData p) = bytesOf h (privateData p)"
    using assms(2) by (rule bytesOf_append)
  have a: "bytesOf (h @ [?a, ?b]) \<lparr>store = length h, byteOffset = 0, byteLength = length ?a\<rparr> = ?a"
    by (rule bytesOf_whole) (simp add: nth_append)
  have b: "bytesOf (h @ [?a, ?b]) \<lparr>store = Suc (length h), byteOffset = 0, byteLength = length ?b\<rparr> = ?b"
    by (rule bytesOf_whole) (simp add: nth_append)
  have content: "concat_u8 (h @ [?a, ?b])
                   [Zeros 4, Arr \<lparr>store = length h, byteOffset = 0, byteLength = length ?a\<rparr>,
                    Arr \<lparr>store = Suc (length h), byteOffset = 0, byteLength = length ?b\<rparr>,
                    Arr (privateData p)] =
                 (\<lparr>store = Suc (Suc (length h)), byteOffset = 0, byteLength = length ?c\<rparr>, h @ [?a, ?b, ?c])"
    using a b pd by (simp add: concat_u8_def newArray_def psshContent_def)
  let ?d = "itobe4 (length ?c + 8)"
  let ?e = "strToBytes ''pssh''"
  have c: "bytesOf (h @ [?a, ?b, ?c, ?d, ?e]) \<lparr>store = Suc (Suc (length h)), byteOffset = 0, byteLength = length ?c\<rparr> = ?c"
    by (rule bytesOf_whole) (simp add: nth_append)
  have d: "bytesOf (h @ [?a, ?b, ?c, ?d, ?e]) \<lparr>store = Suc (Suc (Suc (length h))), byteOffset = 0, byteLength = length ?d\<rparr> = ?d"
    by (rule bytesOf_whole) (simp add: nth_append)
  have e: "bytesOf (h @ [?a, ?b, ?c, ?d, ?e]) \<lparr>store = Suc (Suc (Suc (Suc (length h)))), byteOffset = 0, byteLength = length ?e\<rparr> = ?e"
    by (rule bytesOf_whole) (simp add: nth_append)
  have atom: "Atom (h @ [?a, ?b, ?c]) ''pssh''
                \<lparr>store = Suc (Suc (length h)), byteOffset = 0, byteLength = length ?c\<rparr> =
              (\<lparr>store = length h + 5, byteOffset = 0, byteLength = length (psshBytes h p)\<rparr>,
               h @ psshAllocs h p)"
    using c d e by (simp add: Atom_def concat_u8_def newArray_def Let_def psshBytes_def psshAllocs_def
        eval_nat_numeral)
  show ?thesis
    using assms(1) content atom by (simp add: createPssh_def newArray_def Let_def eval_nat_numeral)
qed

lemma createPssh_invalid:
  "length (filter (\<lambda>c. c \<noteq> CHR ''-'') (systemId p)) \<noteq> 32 \<Longrightarrow>
     createPssh h p = (Inl (AssertionError []), h)"
  by (simp add: createPssh_def)

lemma bytesOf_same: "h' ! store a = h ! store a \<Longrightarrow> bytesOf h' a = bytesOf h a"
  by (simp add: bytesOf_def)

lemma bytesOf_subarray:
  "wellFormed h a \<Longrightarrow>
     bytesOf h (subarray a (Some b) e) = subarrayBytes (bytesOf h a) b e"
proof -
  assume wf: "wellFormed h a"
  let ?l = "byteLength a"
  let ?xs = "h ! store a"
  let ?b = "min b ?l"
  let ?e = "min (case e of None \<Rightarrow> 0 | Some x \<Rightarrow> x) ?l"
  from wf have len: "length (bytesOf h a) = ?l"
    by (auto simp: bytesOf_def wellFormed_def min_def)
  have "bytesOf h (subarray a (Some b) e) = take (?e - ?b) (drop (byteOffset a + ?b) ?xs)"
    by (simp add: bytesOf_def subarray_def toInteger_def Let_def)
  also have "\<dots> = take (?e - ?b) (take (?l - ?b) (drop ?b (drop (byteOffset a) ?xs)))"
    by (simp add: min_def add.commute)
  also have "\<dots> = take (?e - ?b) (drop ?b (take ?l (drop (byteOffset a) ?xs)))"
    by (simp only: drop_take)
  also have "\<dots> = subarrayBytes (bytesOf h a) b e"
    unfolding subarrayBytes_def Let_def len by (simp add: bytesOf_def)
  finally show ?thesis .
qed

lemma bytesOf_subarrayFrom:
  "wellFormed h a \<Longrightarrow> bytesOf h (subarrayFrom a (Some b)) = drop b (bytesOf h a)"
proof -
  assume wf: "wellFormed h a"
  let ?l = "byteLength a"
  let ?xs = "h ! store a"
  from wf have fit: "byteOffset a + ?l \<le> length ?xs"
    by (simp add: wellFormed_def)
  have "bytesOf h (subarrayFrom a (Some b)) =
          take (?l - min b ?l) (drop (min b ?l) (drop (byteOffset a) ?xs))"
    by (simp add: bytesOf_def subarrayFrom_def toInteger_def Let_def add.commute)
  also have "\<dots> = drop (min b ?l) (take ?l (drop (byteOffset a) ?xs))"
    by (simp only: drop_take)
  also have "\<dots> = drop b (take ?l (drop (byteOffset a) ?xs))"
    using fit by (cases "b \<le> ?l") (simp_all add: min_def)
  finally show ?thesis by (simp add: bytesOf_def)
qed

lemma store_subarray: "store (subarray a b e) = store a"
  by (simp add: subarray_def Let_def)

lemma store_subarrayFrom: "store (subarrayFrom a b) = store a"
  by (simp add: subarrayFrom_def Let_def)

lemma atomLoop_result:
  "atomLoop buf atomName i sz = Inr (j, Some s) \<Longrightarrow>
     (\<And>s0. sz = Some s0 \<Longrightarrow> 0 < s0 \<and> s0 \<le> i \<and> (i - s0) + 8 < length buf) \<Longrightarrow>
     j + 8 < length buf \<or> (0 < s \<and> s \<le> j \<and> (j - s) + 8 < length buf)"
proof (induction buf atomName i sz rule: atomLoop.induct)
  case (1 buf atomName i sz)
  show ?case
  proof (cases "i + 8 < length buf")
    case False
    with "1.prems"(1) have j: "j = i" and sz: "sz = Some s"
      by (subst (asm) atomLoop.simps, simp)+
    from "1.prems"(2) [OF sz] have "0 < s \<and> s \<le> i \<and> (i - s) + 8 < length buf" .
    with j show ?thesis by blast
  next
    case True
    then obtain s' where s': "be4toi buf i = Some s'"
      by (simp add: be4toi_in_range)
    from "1.prems"(1) True s' have pos: "s' \<noteq> 0"
      by (subst (asm) atomLoop.simps) (simp split: if_splits)
    show ?thesis
    proof (cases "be4toi buf (i + 4) = Some atomName")
      case found: True
      with "1.prems"(1) True s' pos have "j = i"
        by (subst (asm) atomLoop.simps) simp
      with True show ?thesis by simp
    next
      case other: False
      with "1.prems"(1) True s' pos
      have rec: "atomLoop buf atomName (i + s') (Some s') = Inr (j, Some s)"
        by (subst (asm) atomLoop.simps) simp
      show ?thesis
        using "1.IH" [OF True s' pos other rec] True pos by simp
    qed
  qed
qed

lemma findAtom_found:
  assumes "findAtom buf atomName = Inr (int pos)"
  shows "pos + 4 \<le> length buf"
proof -
  from assms obtain j sz where loop: "atomLoop buf atomName 0 None = Inr (j, sz)"
    by (auto simp: findAtom_def split: sum.splits)
  with assms have lt: "j < length buf"
    by (simp add: findAtom_def split: if_splits)
  with assms loop obtain s where sz: "sz = Some s" and fit: "j + s \<le> length buf" and j: "j = pos"
    by (auto simp: findAtom_def split: option.splits if_splits)
  from atomLoop_result [of buf atomName 0 None j s] loop sz
  have "j + 8 < length buf \<or> (0 < s \<and> s \<le> j \<and> (j - s) + 8 < length buf)"
    by simp
  with fit j show ?thesis by arith
qed

lemma createAll_valid:
  assumes "\<forall>p\<in>set ps. length (filter (\<lambda>c. c \<noteq> CHR ''-'') (systemId p)) = 32 \<and>
                       store (privateData p) < length h"
  shows "\<exists>boxes ext. createAll h ps acc = (Inr (acc @ boxes), h @ ext) \<and>
           map (bytesOf (h @ ext)) boxes = map (psshBytes h) ps \<and>
           (\<forall>b\<in>set boxes. store b < length (h @ ext))"
  using assms
proof (induction ps arbitrary: h acc)
  case Nil
  have "createAll h [] acc = (Inr (acc @ []), h @ [])" by simp
  then show ?case by fastforce
next
  case (Cons p ps)
  let ?A = "psshAllocs h p"
  let ?box = "\<lparr>store = length h + 5, byteOffset = 0, byteLength = length (psshBytes h p)\<rparr>"
  from Cons.prems have cp: "createPssh h p = (Inr ?box, h @ ?A)"
    by (simp add: createPssh_valid)
  have box: "bytesOf (h @ ?A) ?box = psshBytes h p"
    by (rule bytesOf_whole) (simp add: nth_append psshAllocs_def)
  have boxst: "store ?box < length (h @ ?A)"
    by (simp add: psshAllocs_def)
  from Cons.prems
  have "\<forall>q\<in>set ps. length (filter (\<lambda>c. c \<noteq> CHR ''-'') (systemId q)) = 32 \<and>
                       store (privateData q) < length (h @ ?A)"
    by auto
  from Cons.IH [OF this, of "acc @ [?box]"] obtain boxes ext where
    rec: "createAll (h @ ?A) ps (acc @ [?box]) = (Inr ((acc @ [?box]) @ boxes), (h @ ?A) @ ext)"
    and bytes: "map (bytesOf ((h @ ?A) @ ext)) boxes = map (psshBytes (h @ ?A)) ps"
    and st: "\<forall>b\<in>set boxes. store b < length ((h @ ?A) @ ext)"
    by blast
  have same: "map (psshBytes (h @ ?A)) ps = map (psshBytes h) ps"
    using Cons.prems by (simp add: psshBytes_append)
  have box': "bytesOf ((h @ ?A) @ ext) ?box = psshBytes h p"
    using bytesOf_append [OF boxst, of ext] box by simp
  have "createAll h (p # ps) acc = (Inr (acc @ (?box # boxes)), h @ (?A @ ext))"
    using cp rec by simp
  moreover have "map (bytesOf (h @ (?A @ ext))) (?box # boxes) = map (psshBytes h) (p # ps)"
    using box' bytes same by simp
  moreover have "\<forall>b\<in>set (?box # boxes). store b < length (h @ (?A @ ext))"
    using st boxst by auto
  ultimately show ?case by blast
qed

lemma argBytes_Arr: "map (argBytes h) (map Arr as) = map (bytesOf h) as"
  by simp

lemma patchPssh_patched:
  assumes wf: "wellFormed h buf"
    and found: "findAtom (bytesOf h buf) 0x6d6f6f76 = Inr (int pos)"
    and valid: "\<forall>p\<in>set (p0 # ps). validPss h p"
  shows "\<exists>S out h'.
           be4toi (bytesOf h buf) pos = Some S \<and>
           patchPssh h buf (Some (p0 # ps)) = (Inr out, h') \<and>
           bytesOf h' out =
             take pos (bytesOf h buf) @
             (itobe4 (length (subarrayBytes (bytesOf h buf) pos (Some (pos + S)) @
                              concat (map (psshBytes h) (p0 # ps)))) @
              drop 4 (subarrayBytes (bytesOf h buf) pos (Some (pos + S)) @
                      concat (map (psshBytes h) (p0 # ps)))) @
             drop (pos + S) (bytesOf h buf)"
proof -
  define bs where "bs = bytesOf h buf"
  from found have pos4: "pos + 4 \<le> length bs"
    unfolding bs_def by (rule findAtom_found)
  then obtain S where S: "be4toi bs pos = Some S"
    by (simp add: be4toi_in_range)
  define moov where "moov = subarray buf (Some pos) (Some (pos + S))"
  define M where "M = subarrayBytes bs pos (Some (pos + S))"
  define P where "P = concat (map (psshBytes h) (p0 # ps))"
  define X where "X = M @ P"
  from wf have stbuf: "store buf < length h"
    by (simp add: wellFormed_def)
  have moov: "bytesOf h moov = M"
    unfolding moov_def M_def bs_def using wf by (rule bytesOf_subarray)
  have stmoov: "store moov = store buf"
    by (simp add: moov_def store_subarray)
  from valid have "\<forall>p\<in>set (p0 # ps). length (filter (\<lambda>c. c \<noteq> CHR ''-'') (systemId p)) = 32 \<and>
                       store (privateData p) < length h"
    by (simp add: validPss_def wellFormed_def)
  from createAll_valid [OF this, of "[moov]"] obtain boxes ext where
    all: "createAll h (p0 # ps) [moov] = (Inr (moov # boxes), h @ ext)"
    and bytes: "map (bytesOf (h @ ext)) boxes = map (psshBytes h) (p0 # ps)"
    by auto
  define h1 where "h1 = h @ ext"
  have moov1: "bytesOf h1 moov = M"
    unfolding h1_def using moov stbuf stmoov by (simp add: bytesOf_append)
  have catX: "concat (map (argBytes h1) (map Arr (moov # boxes))) = X"
    unfolding argBytes_Arr X_def P_def h1_def using moov1 bytes by (simp add: h1_def)
  from valid have "32 \<le> length (psshBytes h p0)"
    by (simp add: length_psshBytes)
  then have len: "4 \<le> length X"
    by (simp add: X_def P_def)
  define newmoov where "newmoov = \<lparr>store = length h1, byteOffset = 0, byteLength = length X\<rparr>"
  have cat: "concat_u8 h1 (map Arr (moov # boxes)) = (newmoov, h1 @ [X])"
    unfolding concat_u8_def catX by (simp add: newArray_def newmoov_def)
  define n where "n = itobe4 (length X)"
  have lenn: "length n = 4"
    by (simp add: n_def length_itobe4)
  define len4 where "len4 = \<lparr>store = Suc (length h1), byteOffset = 0, byteLength = length n\<rparr>"
  define h3 where "h3 = h1 @ [X, n]"
  have new4: "newArray (h1 @ [X]) (itobe4 (byteLength newmoov)) = (len4, h3)"
    by (simp add: newArray_def newmoov_def len4_def h3_def n_def)
  have len4: "bytesOf h3 len4 = n"
    unfolding len4_def by (rule bytesOf_whole) (simp add: h3_def nth_append)
  define Y where "Y = n @ drop 4 X"
  define h4 where "h4 = h3[length h1 := Y]"
  have old: "h3 ! length h1 = X"
    by (simp add: h3_def nth_append)
  have set4: "setBytes h3 newmoov n 0 = (Inr (), h4)"
    using len lenn old by (simp add: setBytes_def newmoov_def h4_def Y_def)
  have keep: "h4 ! store buf = h ! store buf"
    using stbuf by (simp add: h4_def h3_def h1_def nth_append)
  have wf4: "wellFormed h4 buf"
    using wf keep by (simp add: wellFormed_def h4_def h3_def h1_def)
  have bs4: "bytesOf h4 buf = bs"
    unfolding bs_def using keep by (rule bytesOf_same)
  have before: "bytesOf h4 (subarray buf (Some 0) (Some pos)) = take pos bs"
    using bytesOf_subarray [OF wf4, of 0 "Some pos"] bs4 pos4
    by (simp add: subarrayBytes_def)
  have after: "bytesOf h4 (subarrayFrom buf (Some (pos + S))) = drop (pos + S) bs"
    using bytesOf_subarrayFrom [OF wf4, of "pos + S"] bs4 by simp
  have newmoov4: "bytesOf h4 newmoov = Y"
  proof -
    have "h4 ! length h1 = Y"
      by (simp add: h4_def h3_def)
    moreover have "length Y = length X"
      using len lenn by (simp add: Y_def)
    ultimately show ?thesis
      by (simp add: bytesOf_def newmoov_def)
  qed
  define Z where "Z = take pos bs @ Y @ drop (pos + S) bs"
  define out where "out = \<lparr>store = length h4, byteOffset = 0, byteLength = length Z\<rparr>"
  have fin: "concat_u8 h4 [Arr (subarray buf (Some 0) (Some pos)), Arr newmoov,
                           Arr (subarrayFrom buf (Some (pos + S)))] = (out, h4 @ [Z])"
    unfolding concat_u8_def using before after newmoov4
    by (simp add: newArray_def out_def Z_def)
  have outZ: "bytesOf (h4 @ [Z]) out = Z"
    unfolding out_def by (rule bytesOf_whole) simp
  have sz: "be4toi (bytesOf h buf) pos = Some S"
    using S by (simp add: bs_def)
  have tail: "jsAdd (Some pos) (Some S) = Some (pos + S)"
    by (simp add: jsAdd_def)
  have all1: "createAll h (p0 # ps) [subarray buf (Some pos) (Some (pos + S))] =
                (Inr (moov # boxes), h1)"
    using all by (simp only: moov_def h1_def)
  have "patchPssh h buf (Some (p0 # ps)) = (Inr out, h4 @ [Z])"
    unfolding patchPssh_def
    using cat new4 len4 set4 fin
    by (simp add: found sz tail all1 Let_def del: createAll.simps)
  moreover have "Z = take pos bs @ (itobe4 (length (M @ P)) @ drop 4 (M @ P)) @ drop (pos + S) bs"
    by (simp add: Z_def Y_def n_def X_def)
  ultimately show ?thesis
    using S outZ unfolding bs_def M_def P_def by (metis bs_def)
qed

lemma be4toi_append:
  "length xs = k \<Longrightarrow> be4toi (xs @ ys) (k + off) = be4toi ys off"
  by (simp add: be4toi_def byteAt_def nth_append add.assoc)

lemma mod32_bytes:
  "(n::nat) mod 2 ^ 32 =
          (n div 0x1000000 mod 0x100) * 0x1000000 + (n div 0x10000 mod 0x100) * 0x10000
          + (n div 0x100 mod 0x100) * 0x100 + n mod 0x100"
proof -
  have a: "n mod 4294967296 = 256 * (n div 256 mod 16777216) + n mod 256"
    using mod_mult2_eq [of n 256 16777216] by simp
  have b: "n div 256 mod 16777216 = 256 * (n div 65536 mod 65536) + n div 256 mod 256"
    using mod_mult2_eq [of "n div 256" 256 65536] div_mult2_eq [of n 256 256] by simp
  have c: "n div 65536 mod 65536 = 256 * (n div 16777216 mod 256) + n div 65536 mod 256"
    using mod_mult2_eq [of "n div 65536" 256 256] div_mult2_eq [of n 65536 256] by simp
  show ?thesis
    using a b c by simp
qed

lemma unat_byte: "unat (of_nat (x mod 0x100) :: byte) = x mod 0x100"
  by (simp add: unat_of_nat)

lemma be4toi_itobe4: "be4toi (itobe4 n @ ys) 0 = Some (n mod 2 ^ 32)"
  unfolding mod32_bytes
  by (simp add: be4toi_in_range itobe4_def unat_byte del: of_nat_mod)

lemma sum_length_psshBytes:
  "\<forall>p\<in>set ps. validPss h p \<Longrightarrow>
     length (concat (map (psshBytes h) ps)) =
       sum_list (map (\<lambda>p. 8 + 24 + byteLength (privateData p)) ps)"
  by (induction ps) (simp_all add: length_psshBytes)

lemma length_subarrayBytes_drop:
  "pos \<le> length bs \<Longrightarrow>
     drop (pos + length (subarrayBytes bs pos (Some (pos + S)))) bs = drop (pos + S) bs \<and>
     pos + length (subarrayBytes bs pos (Some (pos + S))) \<le> length bs"
  by (auto simp: subarrayBytes_def Let_def min_def)

text \<open>
  C4 (as amended). For a well-formed buffer in which the locator finds the \<open>moov\<close> box at
  \<open>pos\<close>, with declared size \<open>S\<close>, and a non-empty list of descriptors whose system ids
  have 32 characters once the hyphens are removed, \<open>patchPssh\<close> returns a buffer made of
  the bytes before \<open>pos\<close>, a rebuilt region, and the bytes from \<open>pos + S\<close> on. The rebuilt
  region is as long as the old one (the \<open>S\<close> bytes from \<open>pos\<close>, as far as the buffer has
  them) and the new boxes together; when that is less than \<open>2 ^ 32\<close>, the 32-bit
  big-endian field at its start holds its byte length. The output is longer than the
  input by the sum over the descriptors of \<open>8 + 24 + length of privateData\<close>: an 8-byte box
  header, 4 zeroed bytes, the 16 bytes of the system id, a 4-byte length, and the data.
\<close>

theorem C4_patch_lengths:
  assumes "wellFormed h buf"
    and "findAtom (bytesOf h buf) 0x6d6f6f76 = Inr (int pos)"
    and "pssList \<noteq> []"
    and "\<forall>p\<in>set pssList. validPss h p"
  shows "\<exists>S out h' region.
           be4toi (bytesOf h buf) pos = Some S \<and>
           patchPssh h buf (Some pssList) = (Inr out, h') \<and>
           bytesOf h' out = take pos (bytesOf h buf) @ region @ drop (pos + S) (bytesOf h buf) \<and>
           length region =
             min (pos + S) (length (bytesOf h buf)) - pos +
             sum_list (map (\<lambda>p. 8 + 24 + byteLength (privateData p)) pssList) \<and>
           (length region < 2 ^ 32 \<longrightarrow> be4toi (bytesOf h' out) pos = Some (length region)) \<and>
           length (bytesOf h' out) =
             length (bytesOf h buf) +
             sum_list (map (\<lambda>p. 8 + 24 + byteLength (privateData p)) pssList)"
proof -
  define bs where "bs = bytesOf h buf"
  define added where "added = sum_list (map (\<lambda>p. 8 + 24 + byteLength (privateData p)) pssList)"
  from assms(3) obtain p0 ps where list: "pssList = p0 # ps"
    by (cases pssList) simp_all
  from assms(4) have valid: "\<forall>p\<in>set (p0 # ps). validPss h p"
    by (simp only: list)
  from patchPssh_patched [OF assms(1,2) valid] obtain S out h' where
    S: "be4toi bs pos = Some S"
    and patched: "patchPssh h buf (Some pssList) = (Inr out, h')"
    and bytes: "bytesOf h' out =
             take pos bs @
             (itobe4 (length (subarrayBytes bs pos (Some (pos + S)) @
                              concat (map (psshBytes h) pssList))) @
              drop 4 (subarrayBytes bs pos (Some (pos + S)) @
                      concat (map (psshBytes h) pssList))) @
             drop (pos + S) bs"
    unfolding list bs_def by blast
  define M where "M = subarrayBytes bs pos (Some (pos + S))"
  define P where "P = concat (map (psshBytes h) pssList)"
  define region where "region = itobe4 (length (M @ P)) @ drop 4 (M @ P)"
  from assms(2) have pos: "pos \<le> length bs"
    unfolding bs_def using findAtom_found by fastforce
  have lenP: "length P = added"
    unfolding P_def added_def using assms(4) by (rule sum_length_psshBytes)
  have lenM: "length M = min (pos + S) (length bs) - pos"
    using pos by (auto simp: M_def subarrayBytes_def Let_def min_def)
  from valid have "32 \<le> length (psshBytes h p0)"
    by (simp add: length_psshBytes)
  then have four: "4 \<le> length (M @ P)"
    by (simp add: P_def list)
  then have lenR: "length region = length M + added"
    by (simp add: region_def length_itobe4 lenP)
  have out: "bytesOf h' out = take pos bs @ region @ drop (pos + S) bs"
    using bytes by (simp only: region_def M_def P_def)
  have total: "length (bytesOf h' out) = length bs + added"
    using pos by (simp add: out lenR lenM min_def)
  have field: "be4toi (bytesOf h' out) pos = Some (length region)" if "length region < 2 ^ 32"
  proof -
    have "be4toi (bytesOf h' out) (pos + 0) = be4toi (region @ drop (pos + S) bs) 0"
      unfolding out using pos by (intro be4toi_append) simp
    also have "\<dots> = Some (length (M @ P) mod 2 ^ 32)"
      unfolding region_def by (simp add: be4toi_itobe4)
    also have "length (M @ P) = length region"
      using lenR lenP by simp
    finally show ?thesis using that by simp
  qed
  from S patched total lenR lenM out field show ?thesis
    unfolding bs_def added_def
    by (intro exI [of _ S] exI [of _ out] exI [of _ h'] exI [of _ region]) simp
qed

lemma example_findAtom: "findAtom (bytesOf exampleHeap exampleBuf) 0x6d6f6f76 = Inr (int 8)"
  by (simp add: exampleHeap_def exampleBuf_def bytesOf_def findAtom_def be4toi_in_range)

lemma example_wellFormed: "wellFormed exampleHeap exampleBuf"
  by (simp add: exampleHeap_def exampleBuf_def wellFormed_def)

lemma example_validPss: "validPss exampleHeap examplePss"
  by (simp add: exampleHeap_def examplePss_def validPss_def wellFormed_def)

text \<open>
  The theorem at the test container and its descriptor: the output has \<open>36 + 35\<close> bytes,
  and the length field of the rebuilt \<open>moov\<close> box at offset 8 holds \<open>16 + 35\<close>.
\<close>

theorem C4_patch_lengths_witness:
  "wellFormed exampleHeap exampleBuf \<and>
   findAtom (bytesOf exampleHeap exampleBuf) 0x6d6f6f76 = Inr (int 8) \<and>
   validPss exampleHeap examplePss \<and>
   (\<exists>out h'. patchPssh exampleHeap exampleBuf (Some [examplePss]) = (Inr out, h') \<and>
      length (bytesOf h' out) = 71 \<and> be4toi (bytesOf h' out) 8 = Some 51)"
proof -
  have ne: "[examplePss] \<noteq> []" by simp
  have valid: "\<forall>p\<in>set [examplePss]. validPss exampleHeap p"
    by (simp add: example_validPss)
  have len: "length (bytesOf exampleHeap exampleBuf) = 36"
    by (simp add: exampleHeap_def exampleBuf_def bytesOf_def)
  have pd: "byteLength (privateData examplePss) = 3"
    by (simp add: examplePss_def)
  have sz: "be4toi (bytesOf exampleHeap exampleBuf) 8 = Some 16"
    by (simp add: exampleHeap_def exampleBuf_def bytesOf_def be4toi_in_range)
  from C4_patch_lengths [OF example_wellFormed example_findAtom ne valid]
  obtain S out h' region where
    S: "be4toi (bytesOf exampleHeap exampleBuf) 8 = Some S"
    and p: "patchPssh exampleHeap exampleBuf (Some [examplePss]) = (Inr out, h')"
    and region: "length (region :: byte list) =
             min (8 + S) (length (bytesOf exampleHeap exampleBuf)) - 8 +
             sum_list (map (\<lambda>p. 8 + 24 + byteLength (privateData p)) [examplePss])"
    and field: "length region < 2 ^ 32 \<longrightarrow> be4toi (bytesOf h' out) 8 = Some (length region)"
    and total0: "length (bytesOf h' out) =
             length (bytesOf exampleHeap exampleBuf) +
             sum_list (map (\<lambda>p. 8 + 24 + byteLength (privateData p)) [examplePss])"
    by blast
  from S sz have "S = 16" by simp
  with region have "length region = 51"
    by (simp add: len pd)
  with field have "be4toi (bytesOf h' out) 8 = Some 51"
    by simp
  moreover from total0 have total: "length (bytesOf h' out) = 71"
    by (simp add: len pd)
  ultimately have "\<exists>out h'. patchPssh exampleHeap exampleBuf (Some [examplePss]) = (Inr out, h') \<and>
      length (bytesOf h' out) = 71 \<and> be4toi (bytesOf h' out) 8 = Some 51"
    using p by blast
  with example_wellFormed example_findAtom example_validPss show ?thesis
    by blast
qed

text \<open>
  The claim as stated fails on the test container: one descriptor with 3 bytes of private
  data makes the output 35 bytes longer than the input, not \<open>8 + 20 + 3 = 31\<close>.
\<close>

theorem C4_counterexample:
  "length (bytesOf (snd (patchPssh exampleHeap exampleBuf (Some [examplePss])))
            (projr (fst (patchPssh exampleHeap exampleBuf (Some [examplePss]))))) =
     length (bytesOf exampleHeap exampleBuf) + (8 + 24 + 3)"
proof -
  have valid: "\<forall>p\<in>set [examplePss]. validPss exampleHeap p"
    by (simp add: example_validPss)
  from patchPssh_patched [OF example_wellFormed example_findAtom valid]
  obtain S out h' where
    p: "patchPssh exampleHeap exampleBuf (Some [examplePss]) = (Inr out, h')"
    and S: "be4toi (bytesOf exampleHeap exampleBuf) 8 = Some S"
    and bytes: "bytesOf h' out =
             take 8 (bytesOf exampleHeap exampleBuf) @
             (itobe4 (length (subarrayBytes (bytesOf exampleHeap exampleBuf) 8 (Some (8 + S)) @
                              concat (map (psshBytes exampleHeap) [examplePss]))) @
              drop 4 (subarrayBytes (bytesOf exampleHeap exampleBuf) 8 (Some (8 + S)) @
                      concat (map (psshBytes exampleHeap) [examplePss]))) @
             drop (8 + S) (bytesOf exampleHeap exampleBuf)"
    by blast
  have len: "length (bytesOf exampleHeap exampleBuf) = 36"
    by (simp add: exampleHeap_def exampleBuf_def bytesOf_def)
  have "be4toi (bytesOf exampleHeap exampleBuf) 8 = Some 16"
    by (simp add: exampleHeap_def exampleBuf_def bytesOf_def be4toi_in_range)
  with S have S16: "S = 16" by simp
  have pl: "length (psshBytes exampleHeap examplePss) = 35"
    using length_psshBytes [OF example_validPss] by (simp add: examplePss_def)
  have "length (bytesOf h' out) = 71"
    unfolding bytes S16 by (simp add: len pl length_itobe4 subarrayBytes_def)
  with p len show ?thesis by simp
qed

text \<open>
  C7 (as amended). \<open>createPssh\<close> fails exactly when the system id, its hyphens removed,
  does not have 32 characters; it then raises the assertion error and leaves the heap as
  it was, so nothing has been allocated or written. Whether the 32 characters are
  hexadecimal digits is not checked: the decoding of the string never fails.
\<close>

theorem C7_systemId_length_only:
  "((\<exists>e. fst (createPssh h p) = Inl e) =
      (length (filter (\<lambda>c. c \<noteq> CHR ''-'') (systemId p)) \<noteq> 32)) \<and>
   (length (filter (\<lambda>c. c \<noteq> CHR ''-'') (systemId p)) \<noteq> 32 \<longrightarrow>
      createPssh h p = (Inl (AssertionError []), h))"
proof (cases "length (filter (\<lambda>c. c \<noteq> CHR ''-'') (systemId p)) = 32")
  case True
  then have "\<exists>box. fst (createPssh h p) = Inr box"
    by (simp add: createPssh_def Let_def split_def)
  with True show ?thesis by auto
next
  case False
  then show ?thesis by (simp add: createPssh_invalid)
qed

theorem C7_systemId_length_only_witness:
  "length (filter (\<lambda>c. c \<noteq> CHR ''-'') (systemId \<lparr>systemId = ''edef8ba9-79d6'',
       privateData = \<lparr>store = 1, byteOffset = 0, byteLength = 3\<rparr>\<rparr>)) \<noteq> 32 \<and>
   createPssh exampleHeap \<lparr>systemId = ''edef8ba9-79d6'',
       privateData = \<lparr>store = 1, byteOffset = 0, byteLength = 3\<rparr>\<rparr> =
     (Inl (AssertionError []), exampleHeap)"
proof -
  let ?p = "\<lparr>systemId = ''edef8ba9-79d6'',
       privateData = \<lparr>store = 1, byteOffset = 0, byteLength = 3\<rparr>\<rparr>"
  have short: "length (filter (\<lambda>c. c \<noteq> CHR ''-'') (systemId ?p)) \<noteq> 32"
    by simp
  from C7_systemId_length_only [of exampleHeap ?p] short show ?thesis
    by blast
qed

text \<open>
  The claim as stated fails on a system id of 32 letters \<open>z\<close>, none of them a
  hexadecimal digit: the box is built.
\<close>

theorem C7_counterexample:
  "hexDigit CHR ''z'' = None \<and>
   fst (createPssh exampleHeap
          \<lparr>systemId = ''zzzzzzzzzzzzzzzzzzzzzzzzzzzzzzzz'',
           privateData = \<lparr>store = 1, byteOffset = 0, byteLength = 3\<rparr>\<rparr>) =
     Inr \<lparr>store = 7, byteOffset = 0, byteLength = 35\<rparr>"
proof -
  let ?p = "\<lparr>systemId = ''zzzzzzzzzzzzzzzzzzzzzzzzzzzzzzzz'',
           privateData = \<lparr>store = 1, byteOffset = 0, byteLength = 3\<rparr>\<rparr>"
  have v: "validPss exampleHeap ?p"
    by (simp add: validPss_def wellFormed_def exampleHeap_def)
  have "createPssh exampleHeap ?p =
          (Inr \<lparr>store = length exampleHeap + 5, byteOffset = 0,
                byteLength = length (psshBytes exampleHeap ?p)\<rparr>,
           exampleHeap @ psshAllocs exampleHeap ?p)"
    by (rule createPssh_valid) (simp_all add: exampleHeap_def)
  moreover have "length (psshBytes exampleHeap ?p) = 35"
    using length_psshBytes [OF v] by simp
  moreover have "length exampleHeap + 5 = 7"
    by (simp add: exampleHeap_def)
  moreover have "hexDigit CHR ''z'' = None"
    by simp
  ultimately show ?thesis by simp
qed

lemma atomLoop_reached_any:
  "scanReaches buf atomName i \<Longrightarrow> \<exists>sz. atomLoop buf atomName 0 None = atomLoop buf atomName i sz"
proof (induction rule: scanReaches.induct)
  case start
  show ?case by blast
next
  case (skip i s)
  then obtain sz where "atomLoop buf atomName 0 None = atomLoop buf atomName i sz"
    by blast
  also have "\<dots> = atomLoop buf atomName (i + s) (Some s)"
    using skip.hyps by (subst atomLoop.simps) simp
  finally show ?case by blast
qed

lemma findAtom_not_found:
  assumes "scanReaches buf atomName i" and "length buf \<le> i"
  shows "findAtom buf atomName = Inr (- 1)"
proof -
  from atomLoop_reached_any [OF assms(1)] obtain sz where
    "atomLoop buf atomName 0 None = atomLoop buf atomName i sz" ..
  also have "\<dots> = Inr (i, sz)"
    using assms(2) by (subst atomLoop.simps) simp
  finally show ?thesis
    using assms(2) by (simp add: findAtom_def)
qed

text \<open>
  What \<open>patchPssh\<close> does when it does not patch. With a missing or an empty descriptor
  list it returns the array it was given and leaves the heap as it was. With any
  descriptor list it does the same when the scan runs to the end of the buffer or past it
  without meeting the name \<open>moov\<close>, which is when the locator reports "not found". When
  the locator raises, patching with a non-empty list raises the locator's error.
\<close>

lemma patchPssh_unpatched:
  "patchPssh h buf None = (Inr buf, h) \<and>
   patchPssh h buf (Some []) = (Inr buf, h) \<and>
   (scanReaches (bytesOf h buf) 0x6d6f6f76 i \<and> length (bytesOf h buf) \<le> i \<longrightarrow>
      patchPssh h buf pssList = (Inr buf, h)) \<and>
   (findAtom (bytesOf h buf) 0x6d6f6f76 = Inl e \<longrightarrow>
      patchPssh h buf (Some (p # ps)) = (Inl e, h))"
proof -
  have none: "patchPssh h buf None = (Inr buf, h)"
    by (simp add: patchPssh_def)
  have empty: "patchPssh h buf (Some []) = (Inr buf, h)"
    by (simp add: patchPssh_def)
  have absent: "patchPssh h buf pssList = (Inr buf, h)"
    if "scanReaches (bytesOf h buf) 0x6d6f6f76 i" and "length (bytesOf h buf) \<le> i"
  proof -
    from that have "findAtom (bytesOf h buf) 0x6d6f6f76 = Inr (- 1)"
      by (rule findAtom_not_found)
    then show ?thesis
      by (simp add: patchPssh_def split: option.splits list.splits)
  qed
  have raised: "patchPssh h buf (Some (p # ps)) = (Inl e, h)"
    if "findAtom (bytesOf h buf) 0x6d6f6f76 = Inl e"
    using that by (simp add: patchPssh_def)
  from none empty absent raised show ?thesis by blast
qed

lemma freeBoxes_bytes:
  "bytesOf freeBoxesHeap freeBoxesBuf =
     [0, 0, 0, 8, 0x66, 0x72, 0x65, 0x65, 0, 0, 0, 8, 0x66, 0x72, 0x65, 0x65]"
  by (simp add: freeBoxesHeap_def freeBoxesBuf_def bytesOf_def)

lemma freeBoxes_findAtom: "findAtom (bytesOf freeBoxesHeap freeBoxesBuf) 0x6d6f6f76 = Inr (int 8)"
  unfolding freeBoxes_bytes by (simp add: findAtom_def be4toi_in_range)

lemma examplePss_bytes:
  "psshBytes freeBoxesHeap examplePss =
     [0, 0, 0, 35, 0x70, 0x73, 0x73, 0x68, 0, 0, 0, 0,
      0xed, 0xef, 0x8b, 0xa9, 0x79, 0xd6, 0x4a, 0xce, 0xa3, 0xc8, 0x27, 0xdc, 0xd5, 0x1d, 0x21, 0xed,
      0, 0, 0, 3, 0xAA, 0xBB, 0xCC]"
proof -
  have zeros: "replicate 4 (0 :: byte) = [0, 0, 0, 0]"
    by (simp add: eval_nat_numeral)
  show ?thesis
    by (simp add: psshBytes_def psshContent_def examplePss_def freeBoxesHeap_def bytesOf_def
        itobe4_def strToBytes_def zeros)
qed

text \<open>
  C8. The claim fails on the code for a buffer that holds no \<open>moov\<close> box and ends in a box
  of exactly 8 bytes. The locator's loop runs while \<open>i + 8 < l\<close> and so never reads the
  header of that last box; after the loop \<open>findAtom\<close> returns its offset as if the name
  had matched. On two \<open>free\<close> boxes of 8 bytes each, \<open>findAtom\<close> returns 8 for \<open>moov\<close>, and
  \<open>patchPssh\<close> with the test descriptor returns a buffer of 51 bytes: the \<open>pssh\<close> box is
  appended to the second \<open>free\<close> box, whose length field now reads 43. On a buffer that
  is a single \<open>free\<close> box of 8 bytes, \<open>patchPssh\<close> raises.
\<close>

theorem C8_last_box_patched:
  "findAtom (bytesOf freeBoxesHeap freeBoxesBuf) 0x6d6f6f76 = Inr 8 \<and>
   bytesOf (snd (patchPssh freeBoxesHeap freeBoxesBuf (Some [examplePss])))
           (projr (fst (patchPssh freeBoxesHeap freeBoxesBuf (Some [examplePss])))) =
     [0, 0, 0, 8, 0x66, 0x72, 0x65, 0x65,
      0, 0, 0, 43, 0x66, 0x72, 0x65, 0x65,
      0, 0, 0, 35, 0x70, 0x73, 0x73, 0x68, 0, 0, 0, 0,
      0xed, 0xef, 0x8b, 0xa9, 0x79, 0xd6, 0x4a, 0xce, 0xa3, 0xc8, 0x27, 0xdc, 0xd5, 0x1d, 0x21, 0xed,
      0, 0, 0, 3, 0xAA, 0xBB, 0xCC] \<and>
   patchPssh [[0, 0, 0, 8, 0x66, 0x72, 0x65, 0x65], [0xAA, 0xBB, 0xCC]]
     \<lparr>store = 0, byteOffset = 0, byteLength = 8\<rparr> (Some [examplePss]) =
     (Inl (AssertionError ''dash: atom out of range''),
      [[0, 0, 0, 8, 0x66, 0x72, 0x65, 0x65], [0xAA, 0xBB, 0xCC]])"
proof -
  have wf: "wellFormed freeBoxesHeap freeBoxesBuf"
    by (simp add: freeBoxesHeap_def freeBoxesBuf_def wellFormed_def)
  have "validPss freeBoxesHeap examplePss"
    by (simp add: freeBoxesHeap_def examplePss_def validPss_def wellFormed_def)
  then have valid: "\<forall>p\<in>set [examplePss]. validPss freeBoxesHeap p"
    by simp
  from patchPssh_patched [OF wf freeBoxes_findAtom valid]
  obtain S out h' where
    S: "be4toi (bytesOf freeBoxesHeap freeBoxesBuf) 8 = Some S"
    and p: "patchPssh freeBoxesHeap freeBoxesBuf (Some [examplePss]) = (Inr out, h')"
    and bytes: "bytesOf h' out =
             take 8 (bytesOf freeBoxesHeap freeBoxesBuf) @
             (itobe4 (length (subarrayBytes (bytesOf freeBoxesHeap freeBoxesBuf) 8 (Some (8 + S)) @
                              concat (map (psshBytes freeBoxesHeap) [examplePss]))) @
              drop 4 (subarrayBytes (bytesOf freeBoxesHeap freeBoxesBuf) 8 (Some (8 + S)) @
                      concat (map (psshBytes freeBoxesHeap) [examplePss]))) @
             drop (8 + S) (bytesOf freeBoxesHeap freeBoxesBuf)"
    by blast
  have "be4toi (bytesOf freeBoxesHeap freeBoxesBuf) 8 = Some 8"
    unfolding freeBoxes_bytes by (simp add: be4toi_in_range)
  with S have S8: "S = 8" by simp
  have patched: "bytesOf h' out =
     [0, 0, 0, 8, 0x66, 0x72, 0x65, 0x65,
      0, 0, 0, 43, 0x66, 0x72, 0x65, 0x65,
      0, 0, 0, 35, 0x70, 0x73, 0x73, 0x68, 0, 0, 0, 0,
      0xed, 0xef, 0x8b, 0xa9, 0x79, 0xd6, 0x4a, 0xce, 0xa3, 0xc8, 0x27, 0xdc, 0xd5, 0x1d, 0x21, 0xed,
      0, 0, 0, 3, 0xAA, 0xBB, 0xCC]"
    unfolding bytes S8 freeBoxes_bytes
    by (simp add: subarrayBytes_def itobe4_def examplePss_bytes)
  let ?H = "[[0, 0, 0, 8, 0x66, 0x72, 0x65, 0x65], [0xAA, 0xBB, 0xCC]] :: heap"
  let ?B = "\<lparr>store = 0, byteOffset = 0, byteLength = 8\<rparr>"
  have one: "bytesOf ?H ?B = [0, 0, 0, 8, 0x66, 0x72, 0x65, 0x65]"
    by (simp add: bytesOf_def)
  have "findAtom (bytesOf ?H ?B) 0x6d6f6f76 = Inl (AssertionError ''dash: atom out of range'')"
    unfolding one by (simp add: findAtom_def)
  then have single: "patchPssh ?H ?B (Some [examplePss]) =
      (Inl (AssertionError ''dash: atom out of range''), ?H)"
    by (simp add: patchPssh_def)
  from freeBoxes_findAtom p patched single show ?thesis
    by simp
qed

lemma createPssh_keeps: "\<exists>ext. snd (createPssh h p) = h @ ext"
  by (simp add: createPssh_def Atom_def concat_u8_def newArray_def Let_def)

lemma createAll_keeps: "\<exists>ext. snd (createAll h ps acc) = h @ ext"
proof (induction ps arbitrary: h acc)
  case Nil
  show ?case by simp
next
  case (Cons p ps)
  obtain r h1 where cp: "createPssh h p = (r, h1)"
    by (cases "createPssh h p")
  with createPssh_keeps [of h p] obtain ext where h1: "h1 = h @ ext"
    by auto
  show ?case
  proof (cases r)
    case (Inl e)
    with cp h1 show ?thesis by simp
  next
    case (Inr box)
    from Cons.IH [of h1 "acc @ [box]"] obtain ext' where
      "snd (createAll h1 ps (acc @ [box])) = h1 @ ext'" ..
    with cp Inr h1 show ?thesis by simp
  qed
qed

lemma patchPssh_keeps: "\<exists>ext. snd (patchPssh h buf pssList) = h @ ext"
proof (cases pssList)
  case None
  then show ?thesis by (simp add: patchPssh_def)
next
  case (Some list)
  show ?thesis
  proof (cases list)
    case Nil
    with Some show ?thesis by (simp add: patchPssh_def)
  next
    case (Cons p ps)
    show ?thesis
    proof (cases "findAtom (bytesOf h buf) 0x6d6f6f76")
      case (Inl e)
      with Some Cons show ?thesis by (simp add: patchPssh_def)
    next
      case (Inr pos)
      show ?thesis
      proof (cases "pos = - 1")
        case True
        with Some Cons Inr show ?thesis by (simp add: patchPssh_def)
      next
        case False
        define moov where
          "moov = subarray buf (Some (nat pos)) (jsAdd (Some (nat pos)) (be4toi (bytesOf h buf) (nat pos)))"
        obtain r h1 where all: "createAll h (p # ps) [moov] = (r, h1)"
          by (cases "createAll h (p # ps) [moov]")
        with createAll_keeps [of h "p # ps" "[moov]"] obtain ext where h1: "h1 = h @ ext"
          by auto
        have eq: "patchPssh h buf pssList =
            (case (r, h1) of
               (Inl e, h1) \<Rightarrow> (Inl e, h1)
             | (Inr parts, h1) \<Rightarrow>
                 (let (newmoov, h2) = concat_u8 h1 (map Arr parts);
                      (len4, h3) = newArray h2 (itobe4 (byteLength newmoov))
                  in case setBytes h3 newmoov (bytesOf h3 len4) 0 of
                       (Inl e, h4) \<Rightarrow> (Inl e, h4)
                     | (Inr u, h4) \<Rightarrow>
                         (let (out, h5) =
                                concat_u8 h4
                                  [Arr (subarray buf (Some 0) (Some (nat pos))),
                                   Arr newmoov,
                                   Arr (subarrayFrom buf
                                          (jsAdd (Some (nat pos)) (be4toi (bytesOf h buf) (nat pos))))]
                          in (Inr out, h5))))"
          unfolding patchPssh_def Some Cons Inr all [symmetric] moov_def Let_def
          using False by (simp del: createAll.simps)
        show ?thesis
        proof (cases r)
          case (Inl e)
          with eq h1 show ?thesis by simp
        next
          case (Inr parts)
          have "\<exists>ext'. snd (patchPssh h buf pssList) = h @ ext'"
            unfolding eq Inr h1
            by (simp add: concat_u8_def newArray_def setBytes_def Let_def list_update_append)
          then show ?thesis .
        qed
      qed
    qed
  qed
qed

text \<open>
  C9. \<open>patchPssh\<close> leaves every buffer that existed before the call as it was, whatever
  the input and whether it returns or raises: the heap after the call is the heap before
  it followed by the buffers allocated during the call. In particular the bytes seen
  through the input array are the same after the call as before; the length field is
  overwritten in the fresh copy only.
\<close>

theorem C9_input_not_mutated:
  "take (length h) (snd (patchPssh h buf pssList)) = h \<and>
   (store buf < length h \<longrightarrow>
      bytesOf (snd (patchPssh h buf pssList)) buf = bytesOf h buf)"
proof -
  from patchPssh_keeps [of h buf pssList] obtain ext where
    ext: "snd (patchPssh h buf pssList) = h @ ext" ..
  then show ?thesis
    by (simp add: bytesOf_append)
qed

text \<open>
  The theorem at the test container, where the patch takes place: the input still reads
  16 in the length field of its \<open>moov\<close> box.
\<close>

theorem C9_input_not_mutated_witness:
  "store exampleBuf < length exampleHeap \<and>
   take (length exampleHeap) (snd (patchPssh exampleHeap exampleBuf (Some [examplePss]))) =
     exampleHeap \<and>
   bytesOf (snd (patchPssh exampleHeap exampleBuf (Some [examplePss]))) exampleBuf =
     bytesOf exampleHeap exampleBuf \<and>
   be4toi (bytesOf (snd (patchPssh exampleHeap exampleBuf (Some [examplePss]))) exampleBuf) 8 =
     Some 16"
proof -
  have st: "store exampleBuf < length exampleHeap"
    by (simp add: exampleBuf_def exampleHeap_def)
  have sz: "be4toi (bytesOf exampleHeap exampleBuf) 8 = Some 16"
    by (simp add: exampleHeap_def exampleBuf_def bytesOf_def be4toi_in_range)
  from C9_input_not_mutated [of exampleHeap exampleBuf "Some [examplePss]"] st sz
  show ?thesis by simp
qed

section \<open>The serialized buffer queue\<close>


lemma calls_append: "calls (xs @ ys) = calls xs @ calls ys"
  by (induction xs rule: calls.induct) simp_all





lemma upt_snoc_eq: "k \<le> n \<Longrightarrow> xs = [k..<n] \<Longrightarrow> xs @ [n] = [k..<Suc n]"
  by simp















text \<open>
  How the queue goes on after a settlement. An \<open>update\<close> or an \<open>error\<close> event never makes
  the queue call a primitive: the handlers settle the subject in flight and empty the
  slot, and do not call \<open>flush\<close>. The next operation is dispatched by \<open>flush\<close>, which
  runs on the resource's \<open>updateend\<close> event and on an enqueue that finds the FIFO empty.
  So once nothing is in flight while the FIFO is not empty, enqueues and \<open>update\<close> and
  \<open>error\<close> events leave the queue in that condition, and only an \<open>updateend\<close> event
  takes it out.
\<close>

lemma settlement_never_dispatches:
  "calls (effects (step q (UpdateEvent evt))) = calls (effects q) \<and>
   calls (effects (step q (ErrorEvent err))) = calls (effects q)"
  by (simp add: onUpdate_def onError_def calls_append split: option.splits)

lemma stalled_queue_stays:
  assumes "flushing q = None" and "queue q \<noteq> []"
  shows "step q (UpdateEvent evt) = q \<and> step q (ErrorEvent err) = q \<and>
         effects (step q (Enqueue t a env)) = effects q \<and>
         flushing (step q (Enqueue t a env)) = None \<and>
         queue (step q (Enqueue t a env)) = \<lparr>type = t, args = a, subj = subjects q\<rparr> # queue q"
  using assms by (simp add: onUpdate_def onError_def queueAction_def Let_def)

text \<open>
  Where the second of three operations fails by the resource's \<open>error\<close> event, the
  \<open>updateend\<close> event that the resource fires after it dispatches the third.
\<close>

lemma async_error_drains:
  "effects (run
     [Enqueue BUFFER_APPEND a1 \<lparr>updating = False, raises = None\<rparr>,
      Enqueue BUFFER_APPEND a2 \<lparr>updating = True, raises = None\<rparr>,
      Enqueue BUFFER_APPEND a3 \<lparr>updating = True, raises = None\<rparr>,
      UpdateEvent u1, UpdateEnd \<lparr>updating = False, raises = None\<rparr>,
      ErrorEvent e2, UpdateEnd \<lparr>updating = False, raises = None\<rparr>,
      UpdateEvent u3, UpdateEnd \<lparr>updating = False, raises = None\<rparr>]) =
     [Call (AppendBuffer a1), SubjNext 0 u1, SubjComplete 0,
      Call (AppendBuffer a2), SubjError 1 e2,
      Call (AppendBuffer a3), SubjNext 2 u3, SubjComplete 2]"
  by (simp add: run_def constructor_def queueAction_def flush_def onUpdate_def onError_def)

text \<open>
  C6. The claim fails on the code where the resource raises at dispatch. Three appends
  are enqueued on an idle resource, the first completes, and the \<open>updateend\<close> event
  dispatches the second, on which the resource raises. The \<open>catch\<close> in \<open>flush\<close> calls
  \<open>onError\<close>: the second subject receives the error, and nothing calls \<open>flush\<close> again. No
  operation is outstanding, so the resource has no \<open>updateend\<close> event to fire. The third
  operation stays in the FIFO and its subject receives nothing; a fourth enqueue does not
  dispatch either, since it does not find the FIFO empty, and stray \<open>update\<close> and \<open>error\<close>
  events change nothing.
\<close>

theorem C6_sync_raise_stalls:
  "run [Enqueue BUFFER_APPEND (1::nat) \<lparr>updating = False, raises = None\<rparr>,
        Enqueue BUFFER_APPEND 2 \<lparr>updating = True, raises = None\<rparr>,
        Enqueue BUFFER_APPEND 3 \<lparr>updating = True, raises = None\<rparr>,
        UpdateEvent (10::nat), UpdateEnd \<lparr>updating = False, raises = Some 11\<rparr>] =
     \<lparr>buffer = True, queue = [\<lparr>type = BUFFER_APPEND, args = 3, subj = 2\<rparr>],
      flushing = None, subjects = 3,
      effects = [Call (AppendBuffer 1), SubjNext 0 10, SubjComplete 0,
                 Call (AppendBuffer 2), SubjError 1 11]\<rparr> \<and>
   run [Enqueue BUFFER_APPEND (1::nat) \<lparr>updating = False, raises = None\<rparr>,
        Enqueue BUFFER_APPEND 2 \<lparr>updating = True, raises = None\<rparr>,
        Enqueue BUFFER_APPEND 3 \<lparr>updating = True, raises = None\<rparr>,
        UpdateEvent (10::nat), UpdateEnd \<lparr>updating = False, raises = Some 11\<rparr>,
        Enqueue BUFFER_APPEND 4 \<lparr>updating = False, raises = None\<rparr>,
        UpdateEvent 12, ErrorEvent 13] =
     \<lparr>buffer = True,
      queue = [\<lparr>type = BUFFER_APPEND, args = 4, subj = 3\<rparr>,
               \<lparr>type = BUFFER_APPEND, args = 3, subj = 2\<rparr>],
      flushing = None, subjects = 4,
      effects = [Call (AppendBuffer 1), SubjNext 0 10, SubjComplete 0,
                 Call (AppendBuffer 2), SubjError 1 11]\<rparr>"
  by (simp add: run_def constructor_def queueAction_def flush_def onUpdate_def onError_def)

text \<open>
  C10. An \<open>update\<close> event or an \<open>error\<close> event that arrives while no operation is in
  flight leaves the queue as it is, whether the handler is called directly or through the
  listener: the FIFO, the in-flight slot and the log of effects are unchanged, so no
  subject is settled and no exception leaves the handler.
\<close>

theorem C10_idle_events_ignored:
  "flushing q = None \<Longrightarrow>
     onUpdate evt q = q \<and> onError err q = q \<and>
     step q (UpdateEvent evt) = q \<and> step q (ErrorEvent err) = q"
  by (simp add: onUpdate_def onError_def)

theorem C10_idle_events_ignored_witness:
  "flushing (constructor :: (nat, nat) BufferingQueue) = None \<and>
   onUpdate 7 (constructor :: (nat, nat) BufferingQueue) = constructor \<and>
   onError 9 (constructor :: (nat, nat) BufferingQueue) = constructor \<and>
   step (constructor :: (nat, nat) BufferingQueue) (UpdateEvent 7) = constructor \<and>
   step (constructor :: (nat, nat) BufferingQueue) (ErrorEvent 9) = constructor"
proof -
  have idle: "flushing (constructor :: (nat, nat) BufferingQueue) = None"
    by (simp add: constructor_def)
  show ?thesis
    using idle C10_idle_events_ignored [OF idle, of 7 9] by simp
qed

end
